theory Spec2Isabelle
  imports Main "HOL-Library.Word"
begin

unbundle bit_operations_syntax

section \<open>Runtime library used by the scripts\<close>

text \<open>
  The two build scripts (\<^verbatim>\<open>scripts/extract-model-data.js\<close> and
  \<^verbatim>\<open>scripts/build-nextjs-app.js\<close>) call JavaScript string methods and the Node.js
  modules \<^verbatim>\<open>path\<close>, \<^verbatim>\<open>fs\<close> and \<^verbatim>\<open>crypto\<close>. This section
  fixes what those calls compute. Strings are byte strings; the case mapping is the ASCII
  one, and \<^verbatim>\<open>path\<close> is the POSIX flavour (separator \<^verbatim>\<open>/\<close>).
\<close>

subsection \<open>String methods\<close>

fun startsWith :: "string \<Rightarrow> string \<Rightarrow> bool" where
  "startsWith s [] = True"
| "startsWith [] (p # ps) = False"
| "startsWith (c # cs) (p # ps) = (c = p \<and> startsWith cs ps)"

fun includes_str :: "string \<Rightarrow> string \<Rightarrow> bool" where
  "includes_str [] t = (t = [])"
| "includes_str (c # cs) t = (startsWith (c # cs) t \<or> includes_str cs t)"

definition toLowerChar :: "char \<Rightarrow> char" where
  "toLowerChar c =
     (case map_of (zip ''ABCDEFGHIJKLMNOPQRSTUVWXYZ'' ''abcdefghijklmnopqrstuvwxyz'') c of
        Some l \<Rightarrow> l
      | None \<Rightarrow> c)"

definition toLowerCase :: "string \<Rightarrow> string" where
  "toLowerCase s = map toLowerChar s"

definition is_az09 :: "char \<Rightarrow> bool" where
  "is_az09 c = (c \<in> set ''abcdefghijklmnopqrstuvwxyz0123456789'')"

text \<open>\<^verbatim>\<open>s.replace(/[^a-z0-9]/g, '-')\<close> and \<^verbatim>\<open>s.replace(/[^a-z0-9]/g, '')\<close>.\<close>

definition replace_non_az09_dash :: "string \<Rightarrow> string" where
  "replace_non_az09_dash s = map (\<lambda>c. if is_az09 c then c else CHR ''-'') s"

definition remove_non_az09 :: "string \<Rightarrow> string" where
  "remove_non_az09 s = filter is_az09 s"

definition is_space :: "char \<Rightarrow> bool" where
  "is_space c = (c \<in> set [CHR '' '', CHR 0x09, CHR 0x0A, CHR 0x0B, CHR 0x0C, CHR 0x0D])"

text \<open>\<^verbatim>\<open>s.trim() !== ''\<close>: some character of \<open>s\<close> is not white space.\<close>

definition trim_nonempty :: "string \<Rightarrow> bool" where
  "trim_nonempty s = (\<exists>c \<in> set s. \<not> is_space c)"

text \<open>\<^verbatim>\<open>s.split('/')\<close>: the pieces between separators, at least one piece.\<close>

fun split_sep :: "string \<Rightarrow> string list" where
  "split_sep [] = [[]]"
| "split_sep (c # cs) =
     (if c = CHR ''/'' then [] # split_sep cs
      else (case split_sep cs of [] \<Rightarrow> [[c]] | x # xs \<Rightarrow> (c # x) # xs))"

fun join_sep :: "string list \<Rightarrow> string" where
  "join_sep [] = []"
| "join_sep [x] = x"
| "join_sep (x # y # ys) = x @ ''/'' @ join_sep (y # ys)"

subsection \<open>The \<^verbatim>\<open>path\<close> module (POSIX)\<close>

text \<open>
  \<^verbatim>\<open>path.dirname\<close> scans from the right: trailing separators are skipped, and the
  result is everything before the last separator that precedes a non-separator character.
  The scan never looks at index 0, so a path with no such separator gives \<^verbatim>\<open>/\<close> or
  \<^verbatim>\<open>.\<close>. \<open>dirname_end\<close> is the loop on the reversed tail of the path: it returns how
  many characters of the reversed tail are cut off (the separator included).
\<close>

fun dirname_end :: "string \<Rightarrow> bool \<Rightarrow> nat option" where
  "dirname_end [] matchedSlash = None"
| "dirname_end (c # cs) matchedSlash =
     (if c = CHR ''/'' then
        (if \<not> matchedSlash then Some 1 else map_option Suc (dirname_end cs matchedSlash))
      else map_option Suc (dirname_end cs False))"

definition dirname :: "string \<Rightarrow> string" where
  "dirname p =
     (case p of
        [] \<Rightarrow> ''.''
      | c # cs \<Rightarrow>
          (case dirname_end (rev cs) True of
             None \<Rightarrow> if c = CHR ''/'' then ''/'' else ''.''
           | Some k \<Rightarrow>
               if c = CHR ''/'' \<and> k = length cs then ''//''
               else c # take (length cs - k) cs))"

text \<open>
  \<^verbatim>\<open>path.basename(p)\<close>: the last piece of the path, trailing separators ignored.
\<close>

definition basename :: "string \<Rightarrow> string" where
  "basename p =
     rev (takeWhile (\<lambda>c. c \<noteq> CHR ''/'') (dropWhile (\<lambda>c. c = CHR ''/'') (rev p)))"

text \<open>
  \<^verbatim>\<open>path.extname(p)\<close>: from the last dot of the base name to its end; empty when the
  base name has no dot, when its only dot is its first character, or when it is \<^verbatim>\<open>..\<close>.
\<close>

definition extname :: "string \<Rightarrow> string" where
  "extname p =
     (let b = basename p;
          e = rev (takeWhile (\<lambda>c. c \<noteq> CHR ''.'') (rev b))
      in if CHR ''.'' \<notin> set b \<or> length e + 1 = length b \<or> b = ''..'' then []
         else CHR ''.'' # e)"

text \<open>
  \<^verbatim>\<open>path.basename(p, ext)\<close> is called on directory entries only (names without a
  separator): the suffix \<open>ext\<close> is removed when the name ends with it and is longer.
\<close>

definition basename_ext :: "string \<Rightarrow> string \<Rightarrow> string" where
  "basename_ext p ext =
     (let b = basename p
      in if ext \<noteq> [] \<and> length ext \<le> length b \<and> b = ext then []
         else if ext \<noteq> [] \<and> length ext < length b \<and> drop (length b - length ext) b = ext
              then take (length b - length ext) b
         else b)"

text \<open>
  \<^verbatim>\<open>normalizeString\<close>: empty pieces and \<^verbatim>\<open>.\<close> are dropped, \<^verbatim>\<open>..\<close> removes the piece
  before it, or is kept when there is none and the path is relative. The accumulator holds
  the pieces kept so far, last piece first.
\<close>

fun normalizeString :: "bool \<Rightarrow> string list \<Rightarrow> string list \<Rightarrow> string list" where
  "normalizeString allowAboveRoot acc [] = rev acc"
| "normalizeString allowAboveRoot acc (s # ss) =
     (if s = [] \<or> s = ''.'' then normalizeString allowAboveRoot acc ss
      else if s = ''..'' then
        (case acc of
           [] \<Rightarrow> normalizeString allowAboveRoot (if allowAboveRoot then [''..''] else []) ss
         | a # as \<Rightarrow>
             if a = ''..'' then
               normalizeString allowAboveRoot (if allowAboveRoot then ''..'' # a # as else a # as) ss
             else normalizeString allowAboveRoot as ss)
      else normalizeString allowAboveRoot (s # acc) ss)"

definition isAbsolute :: "string \<Rightarrow> bool" where
  "isAbsolute p = startsWith p ''/''"

definition normalize :: "string \<Rightarrow> string" where
  "normalize p =
     (if p = [] then ''.''
      else
        (let trailingSeparator = (last p = CHR ''/'');
             s = join_sep (normalizeString (\<not> isAbsolute p) [] (split_sep p))
         in if s = [] then
              (if isAbsolute p then ''/'' else if trailingSeparator then ''./'' else ''.'')
            else (if isAbsolute p then ''/'' else []) @ s
                 @ (if trailingSeparator then ''/'' else [])))"

text \<open>\<^verbatim>\<open>path.join(a, b)\<close>.\<close>

definition join :: "string \<Rightarrow> string \<Rightarrow> string" where
  "join a b =
     (let joined = (if a = [] then b else if b = [] then a else a @ ''/'' @ b)
      in if joined = [] then ''.'' else normalize joined)"

text \<open>
  \<^verbatim>\<open>path.resolve(p)\<close> against the working directory \<open>cwd\<close> (an absolute path), as the
  list of pieces below the root, and \<^verbatim>\<open>path.relative(from, to)\<close>: the common leading
  pieces are dropped, every remaining piece of \<open>from\<close> becomes \<^verbatim>\<open>..\<close>.
\<close>

definition resolve_segs :: "string \<Rightarrow> string \<Rightarrow> string list" where
  "resolve_segs cwd p =
     normalizeString False [] (split_sep (if isAbsolute p then p else cwd @ ''/'' @ p))"

fun drop_common :: "string list \<Rightarrow> string list \<Rightarrow> string list \<times> string list" where
  "drop_common (x # xs) (y # ys) = (if x = y then drop_common xs ys else (x # xs, y # ys))"
| "drop_common xs ys = (xs, ys)"

definition relative :: "string \<Rightarrow> string \<Rightarrow> string \<Rightarrow> string" where
  "relative cwd from to =
     (case drop_common (resolve_segs cwd from) (resolve_segs cwd to) of
        (fs, ts) \<Rightarrow> join_sep (map (\<lambda>_. ''..'') fs @ ts))"

subsection \<open>The \<^verbatim>\<open>fs\<close> module\<close>

text \<open>
  The source tree as the scripts see it: a path is absent, a regular file, or a directory
  with its entries in the order \<^verbatim>\<open>readdirSync\<close> returns them. The scripts only read
  the source tree; what they write (the published image directory, the catalog, the build
  cache) is kept apart from it in the model, so the published image directory is taken to
  lie outside the scanned tree.
\<close>

datatype node = File | Dir "string list"

type_synonym filesystem = "string \<Rightarrow> node option"

definition existsSync :: "filesystem \<Rightarrow> string \<Rightarrow> bool" where
  "existsSync fs p = (fs p \<noteq> None)"

text \<open>\<^verbatim>\<open>readdirSync\<close> throws (\<open>None\<close>) on anything but a directory.\<close>

definition readdirSync :: "filesystem \<Rightarrow> string \<Rightarrow> string list option" where
  "readdirSync fs p = (case fs p of Some (Dir names) \<Rightarrow> Some names | _ \<Rightarrow> None)"

definition isDirectory :: "filesystem \<Rightarrow> string \<Rightarrow> bool" where
  "isDirectory fs p = (case fs p of Some (Dir names) \<Rightarrow> True | _ \<Rightarrow> False)"

text \<open>\<^verbatim>\<open>copyFileSync(src, target)\<close> succeeds on a regular file and throws otherwise.\<close>

definition copyFileSync_ok :: "filesystem \<Rightarrow> string \<Rightarrow> bool" where
  "copyFileSync_ok fs src = (fs src = Some File)"

subsection \<open>MD5 (\<^verbatim>\<open>crypto.createHash('md5')\<close>, RFC 1321)\<close>

type_synonym w32 = "32 word"
type_synonym md5_state = "w32 \<times> w32 \<times> w32 \<times> w32"

definition md5_F :: "w32 \<Rightarrow> w32 \<Rightarrow> w32 \<Rightarrow> w32" where
  "md5_F b c d = (b AND c) OR (NOT b AND d)"

definition md5_G :: "w32 \<Rightarrow> w32 \<Rightarrow> w32 \<Rightarrow> w32" where
  "md5_G b c d = (d AND b) OR (NOT d AND c)"

definition md5_H :: "w32 \<Rightarrow> w32 \<Rightarrow> w32 \<Rightarrow> w32" where
  "md5_H b c d = b XOR c XOR d"

definition md5_I :: "w32 \<Rightarrow> w32 \<Rightarrow> w32 \<Rightarrow> w32" where
  "md5_I b c d = c XOR (b OR NOT d)"

definition rotl32 :: "nat \<Rightarrow> w32 \<Rightarrow> w32" where
  "rotl32 n x = push_bit n x OR drop_bit (32 - n) x"

text \<open>
  One round of sixteen operations over the message block \<open>M\<close>; an operation is given by
  its sine constant, its rotation and the index of the message word it adds.
\<close>

fun md5_round ::
  "(w32 \<Rightarrow> w32 \<Rightarrow> w32 \<Rightarrow> w32) \<Rightarrow> w32 list \<Rightarrow> (w32 \<times> nat \<times> nat) list \<Rightarrow> md5_state \<Rightarrow> md5_state"
where
  "md5_round f M [] st = st"
| "md5_round f M ((k, s, g) # ops) (a, b, c, d) =
     md5_round f M ops (d, b + rotl32 s (f b c d + a + k + M ! g), b, c)"

definition md5_ops1 :: "(w32 \<times> nat \<times> nat) list" where
  "md5_ops1 =
     [(0xd76aa478, 7, 0), (0xe8c7b756, 12, 1), (0x242070db, 17, 2), (0xc1bdceee, 22, 3),
      (0xf57c0faf, 7, 4), (0x4787c62a, 12, 5), (0xa8304613, 17, 6), (0xfd469501, 22, 7),
      (0x698098d8, 7, 8), (0x8b44f7af, 12, 9), (0xffff5bb1, 17, 10), (0x895cd7be, 22, 11),
      (0x6b901122, 7, 12), (0xfd987193, 12, 13), (0xa679438e, 17, 14), (0x49b40821, 22, 15)]"

definition md5_ops2 :: "(w32 \<times> nat \<times> nat) list" where
  "md5_ops2 =
     [(0xf61e2562, 5, 1), (0xc040b340, 9, 6), (0x265e5a51, 14, 11), (0xe9b6c7aa, 20, 0),
      (0xd62f105d, 5, 5), (0x02441453, 9, 10), (0xd8a1e681, 14, 15), (0xe7d3fbc8, 20, 4),
      (0x21e1cde6, 5, 9), (0xc33707d6, 9, 14), (0xf4d50d87, 14, 3), (0x455a14ed, 20, 8),
      (0xa9e3e905, 5, 13), (0xfcefa3f8, 9, 2), (0x676f02d9, 14, 7), (0x8d2a4c8a, 20, 12)]"

definition md5_ops3 :: "(w32 \<times> nat \<times> nat) list" where
  "md5_ops3 =
     [(0xfffa3942, 4, 5), (0x8771f681, 11, 8), (0x6d9d6122, 16, 11), (0xfde5380c, 23, 14),
      (0xa4beea44, 4, 1), (0x4bdecfa9, 11, 4), (0xf6bb4b60, 16, 7), (0xbebfbc70, 23, 10),
      (0x289b7ec6, 4, 13), (0xeaa127fa, 11, 0), (0xd4ef3085, 16, 3), (0x04881d05, 23, 6),
      (0xd9d4d039, 4, 9), (0xe6db99e5, 11, 12), (0x1fa27cf8, 16, 15), (0xc4ac5665, 23, 2)]"

definition md5_ops4 :: "(w32 \<times> nat \<times> nat) list" where
  "md5_ops4 =
     [(0xf4292244, 6, 0), (0x432aff97, 10, 7), (0xab9423a7, 15, 14), (0xfc93a039, 21, 5),
      (0x655b59c3, 6, 12), (0x8f0ccc92, 10, 3), (0xffeff47d, 15, 10), (0x85845dd1, 21, 1),
      (0x6fa87e4f, 6, 8), (0xfe2ce6e0, 10, 15), (0xa3014314, 15, 6), (0x4e0811a1, 21, 13),
      (0xf7537e82, 6, 4), (0xbd3af235, 10, 11), (0x2ad7d2bb, 15, 2), (0xeb86d391, 21, 9)]"

fun md5_add :: "md5_state \<Rightarrow> md5_state \<Rightarrow> md5_state" where
  "md5_add (a0, b0, c0, d0) (a, b, c, d) = (a0 + a, b0 + b, c0 + c, d0 + d)"

definition md5_block :: "md5_state \<Rightarrow> w32 list \<Rightarrow> md5_state" where
  "md5_block st M =
     md5_add st
       (md5_round md5_I M md5_ops4 (md5_round md5_H M md5_ops3
         (md5_round md5_G M md5_ops2 (md5_round md5_F M md5_ops1 st))))"

text \<open>Bytes to little-endian words, and words to sixteen-word blocks.\<close>

fun le_words :: "nat list \<Rightarrow> w32 list" where
  "le_words (b0 # b1 # b2 # b3 # bs) =
     word_of_nat (b0 + 256 * b1 + 65536 * b2 + 16777216 * b3) # le_words bs"
| "le_words _ = []"

fun md5_blocks :: "md5_state \<Rightarrow> w32 list \<Rightarrow> md5_state" where
  "md5_blocks st (m0 # m1 # m2 # m3 # m4 # m5 # m6 # m7 # m8 # m9 # m10 # m11 # m12 # m13
                   # m14 # m15 # ms) =
     md5_blocks
       (md5_block st [m0, m1, m2, m3, m4, m5, m6, m7, m8, m9, m10, m11, m12, m13, m14, m15]) ms"
| "md5_blocks st _ = st"

definition le_bytes4 :: "nat \<Rightarrow> nat list" where
  "le_bytes4 n = [n mod 256, n div 256 mod 256, n div 65536 mod 256, n div 16777216 mod 256]"

definition le_bytes8 :: "nat \<Rightarrow> nat list" where
  "le_bytes8 n = le_bytes4 (n mod 4294967296) @ le_bytes4 (n div 4294967296 mod 4294967296)"

text \<open>
  Padding: the byte 128, zero bytes up to 56 modulo 64, the bit length in eight bytes.
\<close>

definition md5_pad :: "nat list \<Rightarrow> nat list" where
  "md5_pad bs =
     bs @ [128] @ replicate ((119 - length bs mod 64) mod 64) 0 @ le_bytes8 (8 * length bs)"

definition hex_byte :: "nat \<Rightarrow> string" where
  "hex_byte n = [''0123456789abcdef'' ! (n div 16), ''0123456789abcdef'' ! (n mod 16)]"

fun md5_out :: "md5_state \<Rightarrow> string" where
  "md5_out (a, b, c, d) =
     concat (map hex_byte (concat (map (\<lambda>w. le_bytes4 (unat w)) [a, b, c, d])))"

text \<open>\<^verbatim>\<open>crypto.createHash('md5').update(s).digest('hex')\<close>.\<close>

definition md5_hex :: "string \<Rightarrow> string" where
  "md5_hex s =
     md5_out (md5_blocks (0x67452301, 0xefcdab89, 0x98badcfe, 0x10325476)
                (le_words (md5_pad (map of_char s))))"

subsection \<open>\<^verbatim>\<open>JSON.stringify\<close> on strings\<close>

definition json_escape :: "char \<Rightarrow> string" where
  "json_escape c =
     (if c = CHR 0x22 then [CHR 0x5C, CHR 0x22]
      else if c = CHR 0x5C then [CHR 0x5C, CHR 0x5C]
      else if c = CHR 0x08 then [CHR 0x5C, CHR ''b'']
      else if c = CHR 0x0C then [CHR 0x5C, CHR ''f'']
      else if c = CHR 0x0A then [CHR 0x5C, CHR ''n'']
      else if c = CHR 0x0D then [CHR 0x5C, CHR ''r'']
      else if c = CHR 0x09 then [CHR 0x5C, CHR ''t'']
      else if (of_char c :: nat) < 32 then [CHR 0x5C, CHR ''u'', CHR ''0'', CHR ''0''] @ hex_byte (of_char c)
      else [c])"

definition json_string :: "string \<Rightarrow> string" where
  "json_string s = [CHR 0x22] @ concat (map json_escape s) @ [CHR 0x22]"

fun json_commas :: "string list \<Rightarrow> string" where
  "json_commas [] = []"
| "json_commas [x] = x"
| "json_commas (x # y # ys) = x @ '','' @ json_commas (y # ys)"

definition json_array :: "string list \<Rightarrow> string" where
  "json_array xs = ''['' @ json_commas xs @ '']''"

definition json_object :: "(string \<times> string) list \<Rightarrow> string" where
  "json_object kvs = ''{'' @ json_commas (map (\<lambda>(k, v). json_string k @ '':'' @ v) kvs) @ ''}''"

text \<open>JavaScript truthiness of a value that is a string or absent.\<close>

fun truthy :: "string option \<Rightarrow> bool" where
  "truthy None = False"
| "truthy (Some s) = (s \<noteq> [])"

section \<open>Data model\<close>

text \<open>
  A configuration document (\<^verbatim>\<open>config.orynt3d\<close>, parsed JSON). A section or field that
  the scripts test for presence is an \<open>option\<close>: \<open>None\<close> is an absent or \<^verbatim>\<open>null\<close>
  value. \<open>sc_attributes\<close> is \<^verbatim>\<open>scancfg.attributes\<close>, whose \<^verbatim>\<open>include\<close> list may
  itself be absent, and likewise \<open>sc_tags\<close>. A document that is not an object at all behaves
  as one with both sections absent.
\<close>

record attribute =
  a_key :: string
  a_value :: string

record scan_cfg =
  sc_attributes :: "attribute list option option"
  sc_tags :: "string list option option"

text \<open>
  \<^verbatim>\<open>modelmeta.name\<close> is tested with \<^verbatim>\<open>!== null\<close>, which tells an absent name from a
  \<^verbatim>\<open>null\<close> one, so the field keeps the three cases apart. \<open>name_string\<close> is the string in
  the field, for the places that only ask whether the name is truthy.
\<close>

datatype json_name = NameAbsent | NameNull | Name string

fun name_string :: "json_name \<Rightarrow> string option" where
  "name_string NameAbsent = None"
| "name_string NameNull = None"
| "name_string (Name s) = Some s"

record model_meta =
  mm_name :: json_name
  mm_notes :: "string option"
  mm_tags :: "string list option"
  mm_collections :: "string list option"
  mm_attributes :: "attribute list option"
  mm_cover :: "string option"

record config =
  scancfg :: "scan_cfg option"
  modelmeta :: "model_meta option"

text \<open>
  A catalog entry (\<^verbatim>\<open>modelData\<close>); the fields carry the prefix \<open>m_\<close>. Optional
  properties of the JavaScript object are \<open>option\<close>s.
\<close>

record modelData =
  m_id :: string
  m_name :: string
  m_notes :: string
  m_tags :: "string list"
  m_collections :: "string list"
  m_attributes :: "attribute list"
  m_sourcePath :: string
  m_relativeSourcePath :: string
  m_dateAdded :: string
  m_directoryCollection :: "string option"
  m_image :: "string option"
  m_release :: "string option"
  m_subscription :: "string option"

text \<open>
  The catalog file \<^verbatim>\<open>public/orynt3d-data.json\<close>. Its \<^verbatim>\<open>scanStats\<close> are counters and
  timings of the directory crawl, which is outside this model: the crawl's result, the list
  of configuration files found, is an input.
\<close>

record catalog =
  models :: "modelData list"
  lastUpdated :: string
  totalCount :: nat

text \<open>The build cache file \<^verbatim>\<open>.build-cache.json\<close>.\<close>

record cache_entry =
  c_hash :: string
  c_lastProcessed :: string
  c_imagePath :: "string option"

record build_cache =
  bc_models :: "string \<Rightarrow> cache_entry option"
  bc_lastBuild :: "string option"

text \<open>
  The environment of a run: the scan root \<^verbatim>\<open>ORYNT3D_DIRECTORY\<close> and the working
  directory of the process, against which \<^verbatim>\<open>path.relative\<close> resolves.
\<close>

record env =
  ORYNT3D_DIRECTORY :: string
  cwd :: string

text \<open>
  The source tree as one run reads it: the configuration files the crawl found, in crawl
  order, the parsed content of each (\<open>None\<close> when reading or parsing throws), and the
  directories and files.
\<close>

record source_tree =
  configFiles :: "string list"
  readConfig :: "string \<Rightarrow> config option"
  files :: filesystem

section \<open>\<^verbatim>\<open>scripts/extract-model-data.js\<close>\<close>

definition loadExistingDataFile :: "catalog option \<Rightarrow> (string \<Rightarrow> string option)" where
  "loadExistingDataFile existingData =
     (case existingData of
        None \<Rightarrow> Map.empty
      | Some d \<Rightarrow>
          foldl (\<lambda>existingModels model.
                   if m_id model \<noteq> [] \<and> truthy (m_image model)
                   then existingModels(m_id model := m_image model)
                   else existingModels)
                Map.empty (models d))"

text \<open>
  \<^verbatim>\<open>findOrynt3dConfigFilesRecursively\<close>: the walk below a directory, each entry joined to
  the directory with \<^verbatim>\<open>path.join\<close>; a directory that cannot be read contributes nothing.
  The first argument bounds the depth of the descent.
\<close>

fun findOrynt3dConfigFilesRecursively :: "nat \<Rightarrow> filesystem \<Rightarrow> string \<Rightarrow> string list" where
  "findOrynt3dConfigFilesRecursively 0 fs dir = []"
| "findOrynt3dConfigFilesRecursively (Suc depth) fs dir =
     (case readdirSync fs dir of
        None \<Rightarrow> []
      | Some items \<Rightarrow>
          concat (map (\<lambda>name.
                         if isDirectory fs (join dir name)
                         then findOrynt3dConfigFilesRecursively depth fs (join dir name)
                         else if fs (join dir name) = Some File \<and> name = ''config.orynt3d''
                         then [join dir name]
                         else [])
                      items))"

definition isReleaseConfig :: "config \<Rightarrow> bool" where
  "isReleaseConfig config =
     (case scancfg config of
        None \<Rightarrow> False
      | Some sc \<Rightarrow>
          (case modelmeta config of
             None \<Rightarrow> False
           | Some mm \<Rightarrow>
               (case sc_attributes sc of
                  Some (Some incl) \<Rightarrow>
                    list_ex (\<lambda>attr. a_key attr = ''release'' \<or> a_key attr = ''subscription'') incl
                | _ \<Rightarrow> False)))"

definition isValidModelConfig :: "config \<Rightarrow> bool" where
  "isValidModelConfig config =
     (case modelmeta config of
        None \<Rightarrow> False
      | Some mm \<Rightarrow> mm_name mm \<noteq> NameNull \<or> truthy (mm_cover mm))"

text \<open>
  The decision both passes take on a document: the first pass stores it when
  \<open>isReleaseConfig\<close> holds; the second pass skips it in that case, builds an entry when
  \<open>isValidModelConfig\<close> holds, and otherwise moves on without counting an error.
\<close>

datatype classification = Release | Model | Ignored

definition classify :: "config \<Rightarrow> classification" where
  "classify config =
     (if isReleaseConfig config then Release
      else if isValidModelConfig config then Model
      else Ignored)"

text \<open>\<^verbatim>\<open>Map.prototype.set\<close> on a map kept in insertion order.\<close>

fun map_set :: "('k \<times> 'v) list \<Rightarrow> 'k \<Rightarrow> 'v \<Rightarrow> ('k \<times> 'v) list" where
  "map_set [] k v = [(k, v)]"
| "map_set ((k', v') # kvs) k v =
     (if k' = k then (k, v) # kvs else (k', v') # map_set kvs k v)"

type_synonym release_map = "(string \<times> config \<times> string) list"

definition analyzeConfigFiles :: "(string \<Rightarrow> config option) \<Rightarrow> string list \<Rightarrow> release_map" where
  "analyzeConfigFiles rd cfgFiles =
     foldl (\<lambda>releaseConfigs filePath.
              case rd filePath of
                None \<Rightarrow> releaseConfigs
              | Some config \<Rightarrow>
                  if isReleaseConfig config
                  then map_set releaseConfigs filePath (config, dirname filePath)
                  else releaseConfigs)
           [] cfgFiles"

text \<open>
  The test of \<^verbatim>\<open>findApplicableReleaseConfigs\<close> on one release directory:
  \<^verbatim>\<open>modelDir === releaseDir || modelDir.startsWith(releaseDir + path.sep)\<close>.
\<close>

definition applies :: "string \<Rightarrow> string \<Rightarrow> bool" where
  "applies releaseDir modelDir =
     (modelDir = releaseDir \<or> startsWith modelDir (releaseDir @ ''/''))"

definition findApplicableReleaseConfigs :: "release_map \<Rightarrow> string \<Rightarrow> config list" where
  "findApplicableReleaseConfigs releaseConfigs modelConfigPath =
     map (\<lambda>(releaseConfigPath, config, dirPath). config)
       (filter (\<lambda>(releaseConfigPath, config, dirPath). applies dirPath (dirname modelConfigPath))
          releaseConfigs)"

subsection \<open>Image resolution\<close>

definition imageExtensions :: "string list" where
  "imageExtensions = [''.png'', ''.jpg'', ''.jpeg'', ''.webp'', ''.gif'']"

definition imageDirs :: "string list" where
  "imageDirs = [''images'', ''thumbnails'', ''preview'', ''previews'']"

definition lowerExt :: "string \<Rightarrow> string" where
  "lowerExt file = toLowerCase (extname file)"

text \<open>The tests of the four loops over directory entries.\<close>

definition isFnOrPreviewPng :: "string \<Rightarrow> bool" where
  "isFnOrPreviewPng file =
     (lowerExt file = ''.png'' \<and>
      (startsWith (toLowerCase file) ''fn'' \<or> includes_str (toLowerCase file) ''preview''))"

definition isPng :: "string \<Rightarrow> bool" where
  "isPng file = (lowerExt file = ''.png'')"

definition isImage :: "string \<Rightarrow> bool" where
  "isImage file = (lowerExt file \<in> set imageExtensions)"

text \<open>
  Priority 3: the configured cover name as it is, then, when it has no extension, with each
  image extension appended.
\<close>

definition findConfiguredCover :: "filesystem \<Rightarrow> string \<Rightarrow> string option \<Rightarrow> string option" where
  "findConfiguredCover fs modelDir coverFilename =
     (case coverFilename of
        None \<Rightarrow> None
      | Some cover \<Rightarrow>
          if cover = [] then None
          else if existsSync fs (join modelDir cover) then Some (join modelDir cover)
          else if extname cover = [] then
            map_option (\<lambda>ext. join modelDir (cover @ ext))
              (find (\<lambda>ext. existsSync fs (join modelDir (cover @ ext))) imageExtensions)
          else None)"

text \<open>
  Priority 5: the image sub-directories in their fixed order; a sub-directory that cannot
  be read is skipped.
\<close>

fun findInImageDirs :: "filesystem \<Rightarrow> string \<Rightarrow> string list \<Rightarrow> string option" where
  "findInImageDirs fs modelDir [] = None"
| "findInImageDirs fs modelDir (imageDir # rest) =
     (let imageDirPath = join modelDir imageDir
      in if existsSync fs imageDirPath \<and> isDirectory fs imageDirPath then
           (case readdirSync fs imageDirPath of
              None \<Rightarrow> findInImageDirs fs modelDir rest
            | Some subdirFiles \<Rightarrow>
                (case find isImage subdirFiles of
                   Some file \<Rightarrow> Some (join imageDirPath file)
                 | None \<Rightarrow> findInImageDirs fs modelDir rest))
         else findInImageDirs fs modelDir rest)"

text \<open>
  \<^verbatim>\<open>findCoverImage\<close>. The listing of the model directory is empty when the directory
  does not exist; when listing it throws, the surrounding \<^verbatim>\<open>catch\<close> makes the result
  \<^verbatim>\<open>null\<close>. The flag \<^verbatim>\<open>imageFound\<close> is still false wherever it is tested.
\<close>

definition findCoverImage :: "filesystem \<Rightarrow> string \<Rightarrow> string option \<Rightarrow> string option" where
  "findCoverImage fs modelDir coverFilename =
     (case (if existsSync fs modelDir then readdirSync fs modelDir else Some []) of
        None \<Rightarrow> None
      | Some fileNames \<Rightarrow>
          (case find isFnOrPreviewPng fileNames of
             Some file \<Rightarrow> Some (join modelDir file)
           | None \<Rightarrow>
          (case find isPng fileNames of
             Some file \<Rightarrow> Some (join modelDir file)
           | None \<Rightarrow>
          (case findConfiguredCover fs modelDir coverFilename of
             Some imagePath \<Rightarrow> Some imagePath
           | None \<Rightarrow>
          (case find isImage fileNames of
             Some file \<Rightarrow> Some (join modelDir file)
           | None \<Rightarrow> findInImageDirs fs modelDir imageDirs)))))"

subsection \<open>Identity and the model builder\<close>

definition generateStableId :: "env \<Rightarrow> string \<Rightarrow> string \<Rightarrow> string" where
  "generateStableId e name configPath =
     (let relativePath = relative (cwd e) (ORYNT3D_DIRECTORY e) configPath;
          sourceToHash = name @ ''-'' @ relativePath;
          hash = take 8 (md5_hex sourceToHash);
          normalizedName = replace_non_az09_dash (toLowerCase name)
      in normalizedName @ ''-'' @ hash)"

text \<open>The body of the loop over the \<^verbatim>\<open>include\<close> attributes of one release config.\<close>

definition applyReleaseAttribute :: "modelData \<Rightarrow> attribute \<Rightarrow> modelData" where
  "applyReleaseAttribute modelData attr =
     (let md1 = (if a_key attr = ''release'' then modelData\<lparr>m_release := Some (a_value attr)\<rparr>
                 else if a_key attr = ''subscription''
                 then modelData\<lparr>m_subscription := Some (a_value attr)\<rparr>
                 else modelData)
      in if \<not> list_ex (\<lambda>existing. a_key existing = a_key attr) (m_attributes md1)
         then md1\<lparr>m_attributes :=
                    m_attributes md1 @ [\<lparr>a_key = a_key attr, a_value = a_value attr\<rparr>]\<rparr>
         else md1)"

definition applyReleaseTag :: "modelData \<Rightarrow> string \<Rightarrow> modelData" where
  "applyReleaseTag modelData tag =
     (if tag \<notin> set (m_tags modelData)
      then modelData\<lparr>m_tags := m_tags modelData @ [tag]\<rparr>
      else modelData)"

text \<open>The body of the loop over the applicable release configs.\<close>

definition applyReleaseConfig :: "modelData \<Rightarrow> config \<Rightarrow> modelData" where
  "applyReleaseConfig modelData releaseConfig =
     (let md1 = (case scancfg releaseConfig of
                   Some sc \<Rightarrow>
                     (case sc_attributes sc of
                        Some (Some incl) \<Rightarrow> foldl applyReleaseAttribute modelData incl
                      | _ \<Rightarrow> modelData)
                 | None \<Rightarrow> modelData)
      in (case scancfg releaseConfig of
            Some sc \<Rightarrow>
              (case sc_tags sc of
                 Some (Some incl) \<Rightarrow> foldl applyReleaseTag md1 incl
               | _ \<Rightarrow> md1)
          | None \<Rightarrow> md1))"

datatype error = ConfigPathUndefined | TypeError

text \<open>\<^verbatim>\<open>a || b\<close> on strings.\<close>

definition or_else :: "string option \<Rightarrow> string \<Rightarrow> string" where
  "or_else a b = (case a of Some s \<Rightarrow> if s = [] then b else s | None \<Rightarrow> b)"

text \<open>
  The fallback name: the last piece of the directory of the relative path that is not
  blank, else the base name of the model directory.
\<close>

definition fallbackName :: "string \<Rightarrow> string list \<Rightarrow> string" where
  "fallbackName modelDir dirStructure =
     (let meaningfulSegments = filter trim_nonempty dirStructure
      in if meaningfulSegments \<noteq> [] then last meaningfulSegments else basename modelDir)"

text \<open>
  \<^verbatim>\<open>processModelConfig\<close>. \<open>existingModels\<close> is the map filled by
  \<open>loadExistingDataFile\<close>, \<open>now\<close> the reading of the clock that becomes
  \<^verbatim>\<open>dateAdded\<close>. A document without a \<^verbatim>\<open>modelmeta\<close> section makes the property
  access throw.
\<close>

definition processModelConfig ::
  "env \<Rightarrow> filesystem \<Rightarrow> (string \<Rightarrow> string option) \<Rightarrow> string \<Rightarrow> config \<Rightarrow> string \<Rightarrow> config list
     \<Rightarrow> error + modelData"
where
  "processModelConfig e fs existingModels now modelConfig configPath releaseConfigs =
     (if configPath = [] then Inl ConfigPathUndefined
      else
        (case modelmeta modelConfig of
           None \<Rightarrow> Inl TypeError
         | Some mm \<Rightarrow>
             (let modelDir = dirname configPath;
                  relativePath = relative (cwd e) (ORYNT3D_DIRECTORY e) configPath;
                  dirStructure = split_sep (dirname relativePath);
                  modelName = fallbackName modelDir dirStructure;
                  modelId = generateStableId e (or_else (name_string (mm_name mm)) modelName) configPath;
                  modelData0 =
                    \<lparr>m_id = modelId,
                     m_name = or_else (name_string (mm_name mm)) modelName,
                     m_notes = or_else (mm_notes mm) [],
                     m_tags = (case mm_tags mm of Some ts \<Rightarrow> ts | None \<Rightarrow> []),
                     m_collections = (case mm_collections mm of Some cs \<Rightarrow> cs | None \<Rightarrow> []),
                     m_attributes = (case mm_attributes mm of Some as \<Rightarrow> as | None \<Rightarrow> []),
                     m_sourcePath = configPath,
                     m_relativeSourcePath = relativePath,
                     m_dateAdded = now,
                     m_directoryCollection =
                       (case dirStructure of
                          d # ds \<Rightarrow> if d \<noteq> [] then Some d else None
                        | [] \<Rightarrow> None),
                     m_image =
                       (case existingModels modelId of
                          Some existingImagePath \<Rightarrow>
                            if startsWith existingImagePath ''/images/''
                               \<or> startsWith existingImagePath ''http''
                            then Some existingImagePath else None
                        | None \<Rightarrow> None),
                     m_release = None,
                     m_subscription = None\<rparr>;
                  modelData1 =
                    (if \<not> truthy (m_image modelData0) then
                       (let coverImage0 =
                              (if truthy (mm_cover mm)
                               then findCoverImage fs modelDir (mm_cover mm) else None);
                            coverImage =
                              (if \<not> truthy coverImage0
                               then findCoverImage fs modelDir None else coverImage0)
                        in if truthy coverImage then modelData0\<lparr>m_image := coverImage\<rparr>
                           else modelData0)
                     else modelData0)
              in Inr (foldl applyReleaseConfig modelData1 releaseConfigs))))"

text \<open>
  \<^verbatim>\<open>processModelConfigs\<close>: the second pass, file by file, with its two counters.
  \<open>clock i\<close> is the reading of the clock while the file at position \<open>i\<close> is processed. A
  file that cannot be read or parsed, and an entry whose construction throws, is counted in
  \<^verbatim>\<open>errorCount\<close> and left out; a release document (\<^verbatim>\<open>continue\<close>) and a document that is
  not a valid model change nothing. The result for a list of files is the result for the
  files after the first, to which the first file adds its entry in front and its count.
\<close>

record second_pass =
  sp_models :: "modelData list"
  successCount :: nat
  errorCount :: nat

fun processModelConfigs ::
  "env \<Rightarrow> source_tree \<Rightarrow> (string \<Rightarrow> string option) \<Rightarrow> (nat \<Rightarrow> string) \<Rightarrow> release_map
     \<Rightarrow> nat \<Rightarrow> string list \<Rightarrow> second_pass"
where
  "processModelConfigs e src existingModels clock releaseConfigs i [] =
     \<lparr>sp_models = [], successCount = 0, errorCount = 0\<rparr>"
| "processModelConfigs e src existingModels clock releaseConfigs i (filePath # rest) =
     (let later = processModelConfigs e src existingModels clock releaseConfigs (Suc i) rest
      in case readConfig src filePath of
           None \<Rightarrow> later\<lparr>errorCount := Suc (errorCount later)\<rparr>
         | Some config \<Rightarrow>
             if isReleaseConfig config then later
             else if isValidModelConfig config then
               (case processModelConfig e (files src) existingModels (clock i) config filePath
                       (findApplicableReleaseConfigs releaseConfigs filePath) of
                  Inr modelData \<Rightarrow>
                    later\<lparr>sp_models := modelData # sp_models later,
                          successCount := Suc (successCount later)\<rparr>
                | Inl err \<Rightarrow> later\<lparr>errorCount := Suc (errorCount later)\<rparr>)
             else later)"

text \<open>
  \<^verbatim>\<open>mainExtractModelData\<close> after the crawl: load the prior catalog (\<open>None\<close> when the
  file is missing or unreadable), run both passes, write the new catalog. \<open>finished\<close> is
  the clock when the catalog is assembled.
\<close>

definition mainExtractModelData ::
  "env \<Rightarrow> source_tree \<Rightarrow> catalog option \<Rightarrow> (nat \<Rightarrow> string) \<Rightarrow> string \<Rightarrow> catalog"
where
  "mainExtractModelData e src existingData clock finished =
     (let existingModels = loadExistingDataFile existingData;
          releaseConfigs = analyzeConfigFiles (readConfig src) (configFiles src);
          ms = sp_models (processModelConfigs e src existingModels clock releaseConfigs 0
                            (configFiles src))
      in \<lparr>models = ms, lastUpdated = finished, totalCount = length ms\<rparr>)"

section \<open>\<^verbatim>\<open>scripts/build-nextjs-app.js\<close>\<close>

definition placeholder :: string where
  "placeholder = ''/images/placeholder-model.png''"

text \<open>
  \<^verbatim>\<open>calculateModelHash\<close>: the MD5 digest of the JSON text of the eight hashed fields;
  \<^verbatim>\<open>JSON.stringify\<close> leaves out a property whose value is \<^verbatim>\<open>undefined\<close>.
\<close>

definition json_attribute :: "attribute \<Rightarrow> string" where
  "json_attribute a =
     json_object [(''key'', json_string (a_key a)), (''value'', json_string (a_value a))]"

definition hashSource :: "modelData \<Rightarrow> string" where
  "hashSource model =
     json_object
       ([(''name'', json_string (m_name model)),
         (''notes'', json_string (m_notes model)),
         (''tags'', json_array (map json_string (m_tags model))),
         (''collections'', json_array (map json_string (m_collections model))),
         (''attributes'', json_array (map json_attribute (m_attributes model))),
         (''sourcePath'', json_string (m_sourcePath model))]
        @ (case m_release model of Some r \<Rightarrow> [(''release'', json_string r)] | None \<Rightarrow> [])
        @ (case m_subscription model of
             Some r \<Rightarrow> [(''subscription'', json_string r)]
           | None \<Rightarrow> []))"

definition calculateModelHash :: "modelData \<Rightarrow> string" where
  "calculateModelHash model = md5_hex (hashSource model)"

text \<open>
  The test of \<^verbatim>\<open>categorizeModels\<close> on one model, against the cache as it is when the
  model is reached.
\<close>

definition isNewOrModified :: "(string \<Rightarrow> cache_entry option) \<Rightarrow> modelData \<Rightarrow> bool" where
  "isNewOrModified cacheModels model =
     (case cacheModels (m_id model) of
        None \<Rightarrow> True
      | Some cachedModel \<Rightarrow>
          c_hash cachedModel \<noteq> calculateModelHash model
          \<or> (case m_image model of
                Some img \<Rightarrow> img \<noteq> [] \<and> \<not> startsWith img ''/images/'' \<and> \<not> startsWith img ''http''
              | None \<Rightarrow> False)
          \<or> m_image model = Some placeholder)"

text \<open>
  \<^verbatim>\<open>categorizeModels\<close>. The arrays \<^verbatim>\<open>newModels\<close> and \<^verbatim>\<open>unchangedModels\<close> hold
  references to the objects of \<^verbatim>\<open>data.models\<close>; the model keeps them as positions in
  that array. \<open>clock i\<close> is the clock when position \<open>i\<close> is reached. The state of the loop
  is the two arrays and the cache.
\<close>

type_synonym categorize_state = "nat list \<times> nat list \<times> (string \<Rightarrow> cache_entry option)"

definition categorizeModel ::
  "(nat \<Rightarrow> string) \<Rightarrow> categorize_state \<Rightarrow> nat \<times> modelData \<Rightarrow> categorize_state"
where
  "categorizeModel clock st im =
     (case st of (newModels, unchangedModels, cacheModels) \<Rightarrow>
      (case im of (i, model) \<Rightarrow>
        if isNewOrModified cacheModels model
        then (newModels @ [i], unchangedModels,
              cacheModels(m_id model \<mapsto>
                \<lparr>c_hash = calculateModelHash model, c_lastProcessed = clock i,
                 c_imagePath = None\<rparr>))
        else (newModels, unchangedModels @ [i], cacheModels)))"

definition categorizeModels ::
  "(nat \<Rightarrow> string) \<Rightarrow> modelData list \<Rightarrow> (string \<Rightarrow> cache_entry option) \<Rightarrow> categorize_state"
where
  "categorizeModels clock ms cacheModels =
     foldl (categorizeModel clock) ([], [], cacheModels) (zip [0..<length ms] ms)"

subsection \<open>Alternative image search\<close>

definition commonCoverNames :: "string list" where
  "commonCoverNames = [''cover'', ''thumbnail'', ''preview'', ''main'']"

definition matchesModelName :: "string \<Rightarrow> string \<Rightarrow> bool" where
  "matchesModelName normalizedModelName file =
     (isImage file \<and>
      (let baseName = remove_non_az09 (toLowerCase (basename_ext file (lowerExt file)))
       in includes_str baseName normalizedModelName \<or> includes_str normalizedModelName baseName))"

definition matchesCoverName :: "string \<Rightarrow> string \<Rightarrow> bool" where
  "matchesCoverName coverName file =
     (isImage file \<and> includes_str (toLowerCase (basename_ext file (lowerExt file))) coverName)"

fun findByCoverNames :: "string list \<Rightarrow> string list \<Rightarrow> string option" where
  "findByCoverNames fileNames [] = None"
| "findByCoverNames fileNames (coverName # rest) =
     (case find (matchesCoverName coverName) fileNames of
        Some file \<Rightarrow> Some file
      | None \<Rightarrow> findByCoverNames fileNames rest)"

definition findAlternativeImage :: "filesystem \<Rightarrow> string \<Rightarrow> string \<Rightarrow> string option" where
  "findAlternativeImage fs modelDir modelName =
     (if \<not> existsSync fs modelDir then None
      else
        (case readdirSync fs modelDir of
           None \<Rightarrow> None
         | Some fileNames \<Rightarrow>
             (case find isPng fileNames of
                Some file \<Rightarrow> Some (join modelDir file)
              | None \<Rightarrow>
             (case (if modelName \<noteq> []
                    then find (matchesModelName (remove_non_az09 (toLowerCase modelName))) fileNames
                    else None) of
                Some file \<Rightarrow> Some (join modelDir file)
              | None \<Rightarrow>
             (case findByCoverNames fileNames commonCoverNames of
                Some file \<Rightarrow> Some (join modelDir file)
              | None \<Rightarrow>
             (case find isImage fileNames of
                Some file \<Rightarrow> Some (join modelDir file)
              | None \<Rightarrow> findInImageDirs fs modelDir imageDirs))))))"

subsection \<open>Image materialization\<close>

text \<open>
  The state \<^verbatim>\<open>processModelImages\<close> works on: the array \<^verbatim>\<open>data.models\<close>, the cache,
  and the calls of \<^verbatim>\<open>copyFileSync\<close> made so far: the id of the model the copy is made
  for, the source and the target.
\<close>

record build_state =
  data :: "modelData list"
  cache :: "string \<Rightarrow> cache_entry option"
  copies :: "(string \<times> string \<times> string) list"

fun findIndex :: "('a \<Rightarrow> bool) \<Rightarrow> 'a list \<Rightarrow> nat option" where
  "findIndex P [] = None"
| "findIndex P (x # xs) = (if P x then Some 0 else map_option Suc (findIndex P xs))"

definition setImage :: "build_state \<Rightarrow> nat \<Rightarrow> string \<Rightarrow> build_state" where
  "setImage st modelIndex v =
     st\<lparr>data := (data st)[modelIndex := (data st ! modelIndex)\<lparr>m_image := Some v\<rparr>]\<rparr>"

definition setCacheImagePath :: "build_state \<Rightarrow> string \<Rightarrow> string \<Rightarrow> build_state" where
  "setCacheImagePath st modelId v =
     (case cache st modelId of
        Some entry \<Rightarrow> st\<lparr>cache := (cache st)(modelId \<mapsto> entry\<lparr>c_imagePath := Some v\<rparr>)\<rparr>
      | None \<Rightarrow> st)"

text \<open>
  Copy \<open>src\<close> for the model and record the published path; a copy that throws is caught
  and gives the placeholder.
\<close>

definition copyImage ::
  "string \<Rightarrow> filesystem \<Rightarrow> build_state \<Rightarrow> nat \<Rightarrow> modelData \<Rightarrow> string \<Rightarrow> build_state"
where
  "copyImage publicImagesDir fs st modelIndex model src =
     (let filename = ''model-'' @ m_id model @ ''-'' @ basename src;
          targetPath = join publicImagesDir filename
      in if copyFileSync_ok fs src
         then setCacheImagePath
                (setImage (st\<lparr>copies := copies st @ [(m_id model, src, targetPath)]\<rparr>) modelIndex
                   (''/images/'' @ filename))
                (m_id model) (''/images/'' @ filename)
         else setImage st modelIndex placeholder)"

text \<open>
  The body of the loop of \<^verbatim>\<open>processModelImages\<close> for the model at position \<open>j\<close> of
  \<^verbatim>\<open>data.models\<close>.
\<close>

definition processModelImage ::
  "string \<Rightarrow> filesystem \<Rightarrow> build_state \<Rightarrow> nat \<Rightarrow> build_state"
where
  "processModelImage publicImagesDir fs st j =
     (case drop j (data st) of
        [] \<Rightarrow> st
      | model # later \<Rightarrow>
          (case findIndex (\<lambda>m. m_id m = m_id model) (data st) of
             None \<Rightarrow> st
           | Some modelIndex \<Rightarrow>
               (case m_image model of
                  None \<Rightarrow> setImage st modelIndex placeholder
                | Some img \<Rightarrow>
                    if img = [] then setImage st modelIndex placeholder
                    else if \<not> startsWith img ''http'' \<and> \<not> startsWith img ''/images/'' then
                      (if existsSync fs img
                       then copyImage publicImagesDir fs st modelIndex model img
                       else if m_sourcePath model \<noteq> [] then
                         (case findAlternativeImage fs (dirname (m_sourcePath model))
                                 (m_name model) of
                            Some alternativeImage \<Rightarrow>
                              copyImage publicImagesDir fs st modelIndex model alternativeImage
                          | None \<Rightarrow> setImage st modelIndex placeholder)
                       else setImage st modelIndex placeholder)
                    else st)))"

definition processModelImages ::
  "string \<Rightarrow> filesystem \<Rightarrow> build_state \<Rightarrow> nat list \<Rightarrow> build_state"
where
  "processModelImages publicImagesDir fs st modelsToProcess =
     foldl (processModelImage publicImagesDir fs) st modelsToProcess"

text \<open>
  \<^verbatim>\<open>buildNextjsApp\<close>, steps 1 to 3 and the saving of the cache: read the catalog and
  the cache (\<open>None\<close>: no cache file, or an unreadable one), categorize, process the images
  of the new or modified models, write the catalog and the cache back. The result is the
  catalog, the cache and the copies made.
\<close>

definition buildNextjsApp ::
  "string \<Rightarrow> filesystem \<Rightarrow> catalog \<Rightarrow> build_cache option \<Rightarrow> (nat \<Rightarrow> string) \<Rightarrow> string
     \<Rightarrow> catalog \<times> build_cache \<times> (string \<times> string \<times> string) list"
where
  "buildNextjsApp publicImagesDir fs d savedCache clock finished =
     (let buildCache = (case savedCache of
                          Some c \<Rightarrow> c
                        | None \<Rightarrow> \<lparr>bc_models = Map.empty, bc_lastBuild = None\<rparr>)
      in (case categorizeModels clock (models d) (bc_models buildCache) of
            (newModels, unchangedModels, cacheModels) \<Rightarrow>
              (let st = processModelImages publicImagesDir fs
                          \<lparr>data = models d, cache = cacheModels, copies = []\<rparr> newModels
               in (d\<lparr>models := data st\<rparr>,
                   \<lparr>bc_models = cache st, bc_lastBuild = Some finished\<rparr>,
                   copies st))))"

section \<open>The full pipeline\<close>

text \<open>
  One run: extraction, then materialization, on the catalog and cache files left by the
  previous run. \<open>clock1\<close> and \<open>t1\<close> are the clock during extraction, \<open>clock2\<close> and \<open>t2\<close>
  during materialization.
\<close>

record run_clock =
  clock1 :: "nat \<Rightarrow> string"
  t1 :: string
  clock2 :: "nat \<Rightarrow> string"
  t2 :: string

definition pipeline ::
  "env \<Rightarrow> string \<Rightarrow> source_tree \<Rightarrow> run_clock \<Rightarrow> catalog option \<Rightarrow> build_cache option
     \<Rightarrow> catalog \<times> build_cache \<times> (string \<times> string \<times> string) list"
where
  "pipeline e publicImagesDir src clk priorCatalog priorCache =
     buildNextjsApp publicImagesDir (files src)
       (mainExtractModelData e src priorCatalog (clock1 clk) (t1 clk))
       priorCache (clock2 clk) (t2 clk)"

section \<open>Notions used by the properties\<close>

text \<open>
  The release test in the specification's words: the \<^verbatim>\<open>include\<close> list of the scan
  attributes exists and has an entry whose key is \<^verbatim>\<open>release\<close> or
  \<^verbatim>\<open>subscription\<close>.
\<close>

definition releaseTest :: "config \<Rightarrow> bool" where
  "releaseTest config =
     (case scancfg config of
        None \<Rightarrow> False
      | Some sc \<Rightarrow>
          (case sc_attributes sc of
             Some (Some incl) \<Rightarrow>
               (\<exists>a \<in> set incl. a_key a = ''release'' \<or> a_key a = ''subscription'')
           | _ \<Rightarrow> False))"

text \<open>A model's own attributes and tags, and the tags a release config contributes.\<close>

definition own_attributes :: "model_meta \<Rightarrow> attribute list" where
  "own_attributes mm = (case mm_attributes mm of Some as \<Rightarrow> as | None \<Rightarrow> [])"

definition own_tags :: "model_meta \<Rightarrow> string list" where
  "own_tags mm = (case mm_tags mm of Some ts \<Rightarrow> ts | None \<Rightarrow> [])"

definition release_tags :: "config \<Rightarrow> string list" where
  "release_tags rc =
     (case scancfg rc of
        Some sc \<Rightarrow> (case sc_tags sc of Some (Some incl) \<Rightarrow> incl | _ \<Rightarrow> [])
      | None \<Rightarrow> [])"

text \<open>
  The identity as a function of the resolved name and the path relative to the scan root.
\<close>

definition stableId :: "string \<Rightarrow> string \<Rightarrow> string" where
  "stableId name relativePath =
     replace_non_az09_dash (toLowerCase name) @ ''-''
       @ take 8 (md5_hex (name @ ''-'' @ relativePath))"

text \<open>
  An image value in published form: it starts with the publish prefix \<^verbatim>\<open>/images/\<close> or
  with \<^verbatim>\<open>http\<close>.
\<close>

definition webPath :: "string \<Rightarrow> bool" where
  "webPath img = (startsWith img ''/images/'' \<or> startsWith img ''http'')"

definition webShaped :: "string option \<Rightarrow> bool" where
  "webShaped v = (case v of Some img \<Rightarrow> webPath img | None \<Rightarrow> False)"

text \<open>
  The parts of \<^verbatim>\<open>processModelConfig\<close> by name: the resolved name, the image kept from
  the prior catalog, the image found in the source tree, and the entry as it is before the
  release configs are applied.
\<close>

definition relativeToRoot :: "env \<Rightarrow> string \<Rightarrow> string" where
  "relativeToRoot e configPath = relative (cwd e) (ORYNT3D_DIRECTORY e) configPath"

definition resolvedName :: "env \<Rightarrow> model_meta \<Rightarrow> string \<Rightarrow> string" where
  "resolvedName e mm configPath =
     or_else (name_string (mm_name mm))
       (fallbackName (dirname configPath) (split_sep (dirname (relativeToRoot e configPath))))"

definition preservedImage :: "(string \<Rightarrow> string option) \<Rightarrow> string \<Rightarrow> string option" where
  "preservedImage existingModels modelId =
     (case existingModels modelId of
        Some existingImagePath \<Rightarrow> if webPath existingImagePath then Some existingImagePath else None
      | None \<Rightarrow> None)"

definition resolveImage :: "filesystem \<Rightarrow> string \<Rightarrow> string option \<Rightarrow> string option" where
  "resolveImage fs modelDir cover =
     (let coverImage0 = (if truthy cover then findCoverImage fs modelDir cover else None);
          coverImage = (if \<not> truthy coverImage0 then findCoverImage fs modelDir None
                        else coverImage0)
      in if truthy coverImage then coverImage else None)"

definition directoryCollectionOf :: "string \<Rightarrow> string option" where
  "directoryCollectionOf relativePath =
     (case split_sep (dirname relativePath) of
        d # ds \<Rightarrow> if d \<noteq> [] then Some d else None
      | [] \<Rightarrow> None)"

definition baseModelData ::
  "env \<Rightarrow> filesystem \<Rightarrow> (string \<Rightarrow> string option) \<Rightarrow> string \<Rightarrow> model_meta \<Rightarrow> string \<Rightarrow> modelData"
where
  "baseModelData e fs existingModels now mm configPath =
     \<lparr>m_id = stableId (resolvedName e mm configPath) (relativeToRoot e configPath),
      m_name = resolvedName e mm configPath,
      m_notes = or_else (mm_notes mm) [],
      m_tags = own_tags mm,
      m_collections = (case mm_collections mm of Some cs \<Rightarrow> cs | None \<Rightarrow> []),
      m_attributes = own_attributes mm,
      m_sourcePath = configPath,
      m_relativeSourcePath = relativeToRoot e configPath,
      m_dateAdded = now,
      m_directoryCollection = directoryCollectionOf (relativeToRoot e configPath),
      m_image =
        (case preservedImage existingModels
                (stableId (resolvedName e mm configPath) (relativeToRoot e configPath)) of
           Some img \<Rightarrow> Some img
         | None \<Rightarrow> resolveImage fs (dirname configPath) (mm_cover mm)),
      m_release = None,
      m_subscription = None\<rparr>"

text \<open>
  Attributes only grow at the end, and what is appended has a key that no own attribute
  has; likewise for tags.
\<close>

definition attrs_extend :: "attribute list \<Rightarrow> attribute list \<Rightarrow> bool" where
  "attrs_extend own as =
     (\<exists>extra. as = own @ extra \<and> (\<forall>a \<in> set extra. a_key a \<notin> a_key ` set own))"

definition tags_extend :: "string list \<Rightarrow> string list \<Rightarrow> bool" where
  "tags_extend own ts =
     (\<exists>extra. ts = own @ extra \<and> set extra \<inter> set own = {} \<and> distinct extra)"

text \<open>
  The change test in the specification's words: no cache entry for the id, or a cached
  hash other than the digest of the hashed fields, or an image value that is not in
  published form, or the placeholder as image.
\<close>

definition mustReprocess :: "(string \<Rightarrow> cache_entry option) \<Rightarrow> modelData \<Rightarrow> bool" where
  "mustReprocess cacheModels model =
     (cacheModels (m_id model) = None
      \<or> map_option c_hash (cacheModels (m_id model)) \<noteq> Some (calculateModelHash model)
      \<or> \<not> webShaped (m_image model)
      \<or> m_image model = Some placeholder)"

text \<open>
  A directory is an ancestor of, or equal to, another when it is reached from it by going
  to the parent directory (\<^verbatim>\<open>path.dirname\<close>) some number of times; the chain of parents
  of a path is not longer than the path.
\<close>

fun parent_chain :: "'a list \<Rightarrow> string \<Rightarrow> string list" where
  "parent_chain [] p = [p]"
| "parent_chain (x # fuel) p = p # parent_chain fuel (dirname p)"

definition path_ancestor_or_equal :: "string \<Rightarrow> string \<Rightarrow> bool" where
  "path_ancestor_or_equal d p = (d \<in> set (parent_chain p p))"

text \<open>
  For the build: the cache knows the hash of every model of a list; two caches hold the
  same hashes; two entries differ at most in \<^verbatim>\<open>dateAdded\<close>.
\<close>

definition hashes_known :: "(string \<Rightarrow> cache_entry option) \<Rightarrow> modelData list \<Rightarrow> bool" where
  "hashes_known cacheModels ms =
     (\<forall>m \<in> set ms. map_option c_hash (cacheModels (m_id m)) = Some (calculateModelHash m))"

definition same_hashes ::
  "(string \<Rightarrow> cache_entry option) \<Rightarrow> (string \<Rightarrow> cache_entry option) \<Rightarrow> bool" where
  "same_hashes c c' = (\<forall>modelId. map_option c_hash (c' modelId) = map_option c_hash (c modelId))"

definition forget_dateAdded :: "modelData \<Rightarrow> modelData" where
  "forget_dateAdded m = m\<lparr>m_dateAdded := []\<rparr>"

text \<open>
  All entries with a given id carry a given published image, and no copy is made for that id:
  each step of the loop keeps this.
\<close>

definition keeps_image :: "string \<Rightarrow> string \<Rightarrow> build_state \<Rightarrow> bool" where
  "keeps_image X I st =
     ((\<forall>m \<in> set (data st). m_id m = X \<longrightarrow> m_image m = Some I)
      \<and> (\<forall>x \<in> set (copies st). fst x \<noteq> X))"

text \<open>
  A list of entries after the image loop, compared with the list before: only images have
  changed, the entries at the given positions have an image in published form, and the
  other entries are as before.
\<close>

definition only_images_changed :: "modelData list \<Rightarrow> nat set \<Rightarrow> modelData list \<Rightarrow> bool" where
  "only_images_changed ms js ms' =
     (length ms' = length ms
      \<and> (\<forall>i < length ms. ms' ! i = (ms ! i)\<lparr>m_image := m_image (ms' ! i)\<rparr>)
      \<and> (\<forall>i < length ms. i \<in> js \<longrightarrow> webShaped (m_image (ms' ! i)))
      \<and> (\<forall>i < length ms. i \<notin> js \<longrightarrow> ms' ! i = ms ! i))"

text \<open>
  Two entries built from the same model config in two runs, with the maps
  \<open>ex1\<close> and \<open>ex2\<close> of prior images: they agree except in \<^verbatim>\<open>dateAdded\<close> and in the
  image, and each image is the prior image kept for the id, or else the image \<open>R\<close> found in
  the source tree, the same in both runs.
\<close>

definition extract_related ::
  "(string \<Rightarrow> string option) \<Rightarrow> (string \<Rightarrow> string option) \<Rightarrow> modelData \<Rightarrow> modelData \<Rightarrow> bool"
where
  "extract_related ex1 ex2 a b =
     (b = a\<lparr>m_dateAdded := m_dateAdded b, m_image := m_image b\<rparr>
      \<and> (\<exists>R. (R = None \<or> truthy R)
             \<and> m_image a = (case preservedImage ex1 (m_id a) of Some i \<Rightarrow> Some i | None \<Rightarrow> R)
             \<and> m_image b = (case preservedImage ex2 (m_id a) of Some i \<Rightarrow> Some i | None \<Rightarrow> R)))"

text \<open>
  The image resolver as the specification words it: the candidates in priority order, and
  the first of them. A PNG of the model directory whose lower-cased name starts with
  \<^verbatim>\<open>fn\<close> or contains \<^verbatim>\<open>preview\<close>; any PNG of the model directory; the configured
  cover as it is, then with each image extension appended when it has none, as far as the
  path exists; any entry of the model directory with an image extension; any entry with an
  image extension of a child directory \<^verbatim>\<open>images\<close>, \<^verbatim>\<open>thumbnails\<close>,
  \<^verbatim>\<open>preview\<close>, \<^verbatim>\<open>previews\<close>.
\<close>

definition is_png_file :: "string \<Rightarrow> bool" where
  "is_png_file f = (toLowerCase (extname f) = ''.png'')"

definition named_fn_or_preview :: "string \<Rightarrow> bool" where
  "named_fn_or_preview f =
     (startsWith (toLowerCase f) ''fn'' \<or> includes_str (toLowerCase f) ''preview'')"

definition has_image_extension :: "string \<Rightarrow> bool" where
  "has_image_extension f =
     (toLowerCase (extname f) \<in> set [''.png'', ''.jpg'', ''.jpeg'', ''.webp'', ''.gif''])"

definition entries_of :: "filesystem \<Rightarrow> string \<Rightarrow> string list" where
  "entries_of fs d = (case fs d of Some (Dir names) \<Rightarrow> names | _ \<Rightarrow> [])"

definition cover_candidates :: "filesystem \<Rightarrow> string \<Rightarrow> string option \<Rightarrow> string list" where
  "cover_candidates fs modelDir cover =
     (case cover of
        None \<Rightarrow> []
      | Some c \<Rightarrow>
          if c = [] then []
          else filter (existsSync fs)
                 (join modelDir c
                  # (if extname c = []
                     then map (\<lambda>ext. join modelDir (c @ ext))
                            [''.png'', ''.jpg'', ''.jpeg'', ''.webp'', ''.gif'']
                     else [])))"

definition child_candidates :: "filesystem \<Rightarrow> string \<Rightarrow> string list \<Rightarrow> string list" where
  "child_candidates fs modelDir dirs =
     concat (map (\<lambda>d. map (join (join modelDir d))
                         (filter has_image_extension (entries_of fs (join modelDir d))))
               dirs)"

definition image_candidates ::
  "filesystem \<Rightarrow> string \<Rightarrow> string list \<Rightarrow> string option \<Rightarrow> string list" where
  "image_candidates fs modelDir fileNames cover =
     map (join modelDir) (filter (\<lambda>f. is_png_file f \<and> named_fn_or_preview f) fileNames)
     @ map (join modelDir) (filter is_png_file fileNames)
     @ cover_candidates fs modelDir cover
     @ map (join modelDir) (filter has_image_extension fileNames)
     @ child_candidates fs modelDir [''images'', ''thumbnails'', ''preview'', ''previews'']"

definition first_of :: "'a list \<Rightarrow> 'a option" where
  "first_of xs = (case xs of [] \<Rightarrow> None | x # rest \<Rightarrow> Some x)"

section \<open>Example inputs\<close>

text \<open>
  The tree of the end-to-end example: a release config in \<^verbatim>\<open>/data/Collection1\<close> and
  the model \<^verbatim>\<open>Goblin\<close> below it, with its cover image.
\<close>

definition ex_env :: env where
  "ex_env = \<lparr>ORYNT3D_DIRECTORY = ''/data'', cwd = ''/app''\<rparr>"

definition ex_release_config :: config where
  "ex_release_config =
     \<lparr>scancfg = Some \<lparr>sc_attributes = Some (Some [\<lparr>a_key = ''release'', a_value = ''Winter2024''\<rparr>,
                                                  \<lparr>a_key = ''scale'', a_value = ''32mm''\<rparr>]),
                      sc_tags = Some (Some [''fantasy'', ''winter''])\<rparr>,
      modelmeta = Some \<lparr>mm_name = NameNull, mm_notes = None, mm_tags = None,
                        mm_collections = None, mm_attributes = None, mm_cover = None\<rparr>\<rparr>"

definition ex_goblin_meta :: model_meta where
  "ex_goblin_meta =
     \<lparr>mm_name = Name ''Goblin'', mm_notes = Some ''A goblin'',
      mm_tags = Some [''monster'', ''fantasy''], mm_collections = Some [],
      mm_attributes = Some [\<lparr>a_key = ''release'', a_value = ''Own''\<rparr>],
      mm_cover = Some ''cover.png''\<rparr>"

definition ex_goblin_config :: config where
  "ex_goblin_config = \<lparr>scancfg = None, modelmeta = Some ex_goblin_meta\<rparr>"

definition ex_goblin_path :: string where
  "ex_goblin_path = ''/data/Collection1/Goblin/config.orynt3d''"

definition ex_files :: filesystem where
  "ex_files =
     map_of [(''/data'', Dir [''Collection1'']),
             (''/data/Collection1'', Dir [''config.orynt3d'', ''Goblin'']),
             (''/data/Collection1/config.orynt3d'', File),
             (''/data/Collection1/Goblin'', Dir [''config.orynt3d'', ''cover.png'']),
             (''/data/Collection1/Goblin/config.orynt3d'', File),
             (''/data/Collection1/Goblin/cover.png'', File)]"

definition ex_tree :: source_tree where
  "ex_tree =
     \<lparr>configFiles = [''/data/Collection1/config.orynt3d'', ex_goblin_path],
      readConfig = map_of [(''/data/Collection1/config.orynt3d'', ex_release_config),
                           (ex_goblin_path, ex_goblin_config)],
      files = ex_files\<rparr>"

text \<open>A document with a release attribute and no \<^verbatim>\<open>modelmeta\<close> section.\<close>

definition ex_release_only :: config where
  "ex_release_only =
     \<lparr>scancfg = Some \<lparr>sc_attributes = Some (Some [\<lparr>a_key = ''release'', a_value = ''R1''\<rparr>]),
                      sc_tags = None\<rparr>,
      modelmeta = None\<rparr>"

text \<open>A document that is neither a release nor a model.\<close>

definition ex_empty_config :: config where
  "ex_empty_config =
     \<lparr>scancfg = None,
      modelmeta = Some \<lparr>mm_name = NameNull, mm_notes = None, mm_tags = None,
                        mm_collections = None, mm_attributes = None, mm_cover = None\<rparr>\<rparr>"

text \<open>
  A document whose \<^verbatim>\<open>modelmeta\<close> section is the empty object: the name is absent, not
  \<^verbatim>\<open>null\<close>.
\<close>

definition ex_nameless_config :: config where
  "ex_nameless_config =
     \<lparr>scancfg = None,
      modelmeta = Some \<lparr>mm_name = NameAbsent, mm_notes = None, mm_tags = None,
                        mm_collections = None, mm_attributes = None, mm_cover = None\<rparr>\<rparr>"

text \<open>
  The entry the example's model gets, given the clock reading and the image; and a second
  tree in which another model has been added in front of it.
\<close>

definition ex_goblin_entry :: "string \<Rightarrow> string option \<Rightarrow> modelData" where
  "ex_goblin_entry now img =
     \<lparr>m_id = stableId ''Goblin'' ''Collection1/Goblin/config.orynt3d'',
      m_name = ''Goblin'', m_notes = ''A goblin'',
      m_tags = [''monster'', ''fantasy'', ''winter''], m_collections = [],
      m_attributes = [\<lparr>a_key = ''release'', a_value = ''Own''\<rparr>,
                      \<lparr>a_key = ''scale'', a_value = ''32mm''\<rparr>],
      m_sourcePath = ex_goblin_path,
      m_relativeSourcePath = ''Collection1/Goblin/config.orynt3d'',
      m_dateAdded = now, m_directoryCollection = Some ''Collection1'',
      m_image = img, m_release = Some ''Winter2024'', m_subscription = None\<rparr>"

definition ex_dragon_config :: config where
  "ex_dragon_config =
     \<lparr>scancfg = None,
      modelmeta = Some \<lparr>mm_name = Name ''Dragon'', mm_notes = None, mm_tags = None,
                        mm_collections = None, mm_attributes = None, mm_cover = None\<rparr>\<rparr>"

definition ex_tree2 :: source_tree where
  "ex_tree2 =
     \<lparr>configFiles = [''/data/Dragon/config.orynt3d'', ''/data/Collection1/config.orynt3d'',
                     ex_goblin_path],
      readConfig = map_of [(''/data/Dragon/config.orynt3d'', ex_dragon_config),
                           (''/data/Collection1/config.orynt3d'', ex_release_config),
                           (ex_goblin_path, ex_goblin_config)],
      files = ex_files\<rparr>"

text \<open>
  Model directories for the image search: one holding only \<^verbatim>\<open>thumbnail.jpg\<close>, and one
  in which a PNG named \<^verbatim>\<open>FN...\<close> comes after another PNG.
\<close>

definition ex_thumbnail_files :: filesystem where
  "ex_thumbnail_files =
     map_of [(''/data/Orc'', Dir [''thumbnail.jpg'']), (''/data/Orc/thumbnail.jpg'', File)]"

definition ex_child_files :: filesystem where
  "ex_child_files =
     map_of [(''/data/Orc'', Dir [''notes.txt'', ''images'', ''previews'']),
             (''/data/Orc/notes.txt'', File),
             (''/data/Orc/images'', Dir [''readme.md'']),
             (''/data/Orc/images/readme.md'', File),
             (''/data/Orc/previews'', Dir [''list.txt'', ''side.JPG'', ''top.gif'']),
             (''/data/Orc/previews/list.txt'', File),
             (''/data/Orc/previews/side.JPG'', File),
             (''/data/Orc/previews/top.gif'', File)]"

definition ex_png_files :: filesystem where
  "ex_png_files =
     map_of [(''/data/Orc'', Dir [''a.jpg'', ''b.png'']),
             (''/data/Orc/a.jpg'', File), (''/data/Orc/b.png'', File)]"

definition ex_cover_files :: filesystem where
  "ex_cover_files =
     map_of [(''/data/Orc'', Dir [''art.gif'', ''box.webp'']),
             (''/data/Orc/art.gif'', File), (''/data/Orc/box.webp'', File)]"

definition ex_fn_files :: filesystem where
  "ex_fn_files =
     map_of [(''/data/Orc'', Dir [''notes.txt'', ''cover.png'', ''FN_orc.PNG'']),
             (''/data/Orc/notes.txt'', File), (''/data/Orc/cover.png'', File),
             (''/data/Orc/FN_orc.PNG'', File)]"

text \<open>
  A prior catalog in which the example's model has a source path as image, as the
  extraction writes it, and one in which it has a published image.
\<close>

definition ex_prior_raw :: catalog where
  "ex_prior_raw =
     \<lparr>models = [ex_goblin_entry ''2024-01-01T00:00:00.000Z''
                  (Some ''/data/Collection1/Goblin/old.png'')],
      lastUpdated = ''2024-01-01T00:00:01.000Z'', totalCount = 1\<rparr>"

definition ex_published :: string where
  "ex_published =
     ''/images/model-'' @ stableId ''Goblin'' ''Collection1/Goblin/config.orynt3d'' @ ''-cover.png''"

definition ex_prior_published :: catalog where
  "ex_prior_published =
     \<lparr>models = [ex_goblin_entry ''2024-01-01T00:00:00.000Z'' (Some ex_published)],
      lastUpdated = ''2024-01-01T00:00:01.000Z'', totalCount = 1\<rparr>"

text \<open>The clocks of two runs, a day apart.\<close>

definition ex_clock_A :: run_clock where
  "ex_clock_A =
     \<lparr>clock1 = (\<lambda>i. ''2024-06-01T10:00:00.000Z''), t1 = ''2024-06-01T10:00:01.000Z'',
      clock2 = (\<lambda>i. ''2024-06-01T10:00:02.000Z''), t2 = ''2024-06-01T10:00:03.000Z''\<rparr>"

definition ex_clock_B :: run_clock where
  "ex_clock_B =
     \<lparr>clock1 = (\<lambda>i. ''2024-06-02T10:00:00.000Z''), t1 = ''2024-06-02T10:00:01.000Z'',
      clock2 = (\<lambda>i. ''2024-06-02T10:00:02.000Z''), t2 = ''2024-06-02T10:00:03.000Z''\<rparr>"

definition ex_public_images :: string where
  "ex_public_images = ''/app/public/images''"

text \<open>
  Two runs of the pipeline on the example tree: the first with no prior catalog and no
  cache, the second on what the first has left.
\<close>

definition ex_run1 :: "catalog \<times> build_cache \<times> (string \<times> string \<times> string) list" where
  "ex_run1 = pipeline ex_env ex_public_images ex_tree ex_clock_A None None"

definition ex_run2 :: "catalog \<times> build_cache \<times> (string \<times> string \<times> string) list" where
  "ex_run2 =
     pipeline ex_env ex_public_images ex_tree ex_clock_B
       (Some (fst ex_run1)) (Some (fst (snd ex_run1)))"

text \<open>
  The example tree without any image for the model; a first run on it, and a second run
  after the catalog file has been removed while the build cache was kept.
\<close>

definition ex_files_noimage :: filesystem where
  "ex_files_noimage =
     map_of [(''/data'', Dir [''Collection1'']),
             (''/data/Collection1'', Dir [''config.orynt3d'', ''Goblin'']),
             (''/data/Collection1/config.orynt3d'', File),
             (''/data/Collection1/Goblin'', Dir [''config.orynt3d'', ''goblin.stl'']),
             (''/data/Collection1/Goblin/config.orynt3d'', File),
             (''/data/Collection1/Goblin/goblin.stl'', File)]"

definition ex_bare_run1 :: "catalog \<times> build_cache \<times> (string \<times> string \<times> string) list" where
  "ex_bare_run1 =
     pipeline ex_env ex_public_images (ex_tree\<lparr>files := ex_files_noimage\<rparr>) ex_clock_A None None"

definition ex_bare_run2 :: "catalog \<times> build_cache \<times> (string \<times> string \<times> string) list" where
  "ex_bare_run2 =
     pipeline ex_env ex_public_images (ex_tree\<lparr>files := ex_files_noimage\<rparr>) ex_clock_B None
       (Some (fst (snd ex_bare_run1)))"

text \<open>The hash of the example's entry; it does not depend on the date and the image.\<close>

definition ex_goblin_hash :: string where
  "ex_goblin_hash = calculateModelHash (ex_goblin_entry [] None)"

text \<open>
  A scan from the root directory, with a release document at the root and a model in a
  directory below it; and the same tree scanned from the relative directory \<^verbatim>\<open>.\<close>.
\<close>

definition ex_root_files :: filesystem where
  "ex_root_files =
     map_of [(''/'', Dir [''config.orynt3d'', ''Goblin'']),
             (''/config.orynt3d'', File),
             (''/Goblin'', Dir [''config.orynt3d'']),
             (''/Goblin/config.orynt3d'', File)]"

definition ex_dot_files :: filesystem where
  "ex_dot_files =
     map_of [(''.'', Dir [''config.orynt3d'', ''Goblin'']),
             (''config.orynt3d'', File),
             (''Goblin'', Dir [''config.orynt3d'']),
             (''Goblin/config.orynt3d'', File)]"

definition ex_root_tree :: source_tree where
  "ex_root_tree =
     \<lparr>configFiles = findOrynt3dConfigFilesRecursively 3 ex_root_files ''/'',
      readConfig = map_of [(''/config.orynt3d'', ex_release_config),
                           (''/Goblin/config.orynt3d'', ex_goblin_config)],
      files = ex_root_files\<rparr>"

definition ex_dot_tree :: source_tree where
  "ex_dot_tree =
     \<lparr>configFiles = findOrynt3dConfigFilesRecursively 3 ex_dot_files ''.'',
      readConfig = map_of [(''config.orynt3d'', ex_release_config),
                           (''Goblin/config.orynt3d'', ex_goblin_config)],
      files = ex_dot_files\<rparr>"

section \<open>Facts about the runtime library\<close>

lemma replicate_numeral_Cons: "replicate (numeral k) x = x # replicate (pred_numeral k) x"
  by (simp add: numeral_eq_Suc)

lemmas md5_eval = md5_hex_def md5_pad_def le_bytes4_def le_bytes8_def replicate_numeral_Cons
  hex_byte_def md5_block_def md5_ops1_def md5_ops2_def md5_ops3_def md5_ops4_def
  md5_F_def md5_G_def md5_H_def md5_I_def rotl32_def

text \<open>The digest agrees with the test suite of RFC 1321.\<close>

lemma md5_hex_abc: "md5_hex ''abc'' = ''900150983cd24fb0d6963f7d28e17f72''"
  by (simp add: md5_eval)

lemmas path_eval = dirname_def basename_def extname_def join_def normalize_def isAbsolute_def
  relative_def resolve_segs_def

lemmas str_eval = toLowerCase_def toLowerChar_def is_az09_def replace_non_az09_dash_def
  remove_non_az09_def is_space_def trim_nonempty_def

lemmas fs_eval = existsSync_def readdirSync_def isDirectory_def copyFileSync_ok_def

lemmas image_eval = findCoverImage_def findConfiguredCover_def isFnOrPreviewPng_def isPng_def
  isImage_def lowerExt_def imageExtensions_def imageDirs_def

lemma startsWith_append: "startsWith (p @ s) p"
  by (induction p) simp_all

lemma startsWith_iff: "startsWith s p \<longleftrightarrow> (\<exists>t. s = p @ t)"
proof (induction s p rule: startsWith.induct)
  case (1 s)
  then show ?case by simp
next
  case (2 p ps)
  then show ?case by simp
next
  case (3 c cs p ps)
  then show ?case by auto
qed

lemma webPath_nonempty: "webPath img \<Longrightarrow> img \<noteq> []"
  by (auto simp: webPath_def)

lemma webShaped_truthy: "webShaped v \<Longrightarrow> truthy v"
  by (cases v) (auto simp: webShaped_def webPath_nonempty)

lemma webPath_placeholder: "webPath placeholder"
  by (simp add: webPath_def placeholder_def)

lemma webPath_published: "webPath (''/images/'' @ filename)"
  by (simp add: webPath_def)

text \<open>A loop keeps what each of its steps keeps.\<close>

lemma foldl_invariant:
  "P s \<Longrightarrow> (\<And>s x. P s \<Longrightarrow> P (f s x)) \<Longrightarrow> P (foldl f s xs)"
  by (induction xs arbitrary: s) simp_all

section \<open>Facts about the extraction script\<close>

subsection \<open>What applying release configs changes\<close>

lemma applyReleaseAttribute_frame:
  "m_id (applyReleaseAttribute md a) = m_id md"
  "m_name (applyReleaseAttribute md a) = m_name md"
  "m_notes (applyReleaseAttribute md a) = m_notes md"
  "m_tags (applyReleaseAttribute md a) = m_tags md"
  "m_collections (applyReleaseAttribute md a) = m_collections md"
  "m_sourcePath (applyReleaseAttribute md a) = m_sourcePath md"
  "m_relativeSourcePath (applyReleaseAttribute md a) = m_relativeSourcePath md"
  "m_dateAdded (applyReleaseAttribute md a) = m_dateAdded md"
  "m_directoryCollection (applyReleaseAttribute md a) = m_directoryCollection md"
  "m_image (applyReleaseAttribute md a) = m_image md"
  by (simp_all add: applyReleaseAttribute_def Let_def)

lemma applyReleaseTag_frame:
  "m_id (applyReleaseTag md t) = m_id md"
  "m_name (applyReleaseTag md t) = m_name md"
  "m_notes (applyReleaseTag md t) = m_notes md"
  "m_attributes (applyReleaseTag md t) = m_attributes md"
  "m_collections (applyReleaseTag md t) = m_collections md"
  "m_sourcePath (applyReleaseTag md t) = m_sourcePath md"
  "m_relativeSourcePath (applyReleaseTag md t) = m_relativeSourcePath md"
  "m_dateAdded (applyReleaseTag md t) = m_dateAdded md"
  "m_directoryCollection (applyReleaseTag md t) = m_directoryCollection md"
  "m_image (applyReleaseTag md t) = m_image md"
  by (simp_all add: applyReleaseTag_def)

lemma foldl_attr_frame:
  "m_id (foldl applyReleaseAttribute md as) = m_id md"
  "m_name (foldl applyReleaseAttribute md as) = m_name md"
  "m_notes (foldl applyReleaseAttribute md as) = m_notes md"
  "m_tags (foldl applyReleaseAttribute md as) = m_tags md"
  "m_collections (foldl applyReleaseAttribute md as) = m_collections md"
  "m_sourcePath (foldl applyReleaseAttribute md as) = m_sourcePath md"
  "m_relativeSourcePath (foldl applyReleaseAttribute md as) = m_relativeSourcePath md"
  "m_dateAdded (foldl applyReleaseAttribute md as) = m_dateAdded md"
  "m_directoryCollection (foldl applyReleaseAttribute md as) = m_directoryCollection md"
  "m_image (foldl applyReleaseAttribute md as) = m_image md"
  by (induction as arbitrary: md) (simp_all add: applyReleaseAttribute_frame)

lemma foldl_tag_frame:
  "m_id (foldl applyReleaseTag md ts) = m_id md"
  "m_name (foldl applyReleaseTag md ts) = m_name md"
  "m_notes (foldl applyReleaseTag md ts) = m_notes md"
  "m_attributes (foldl applyReleaseTag md ts) = m_attributes md"
  "m_collections (foldl applyReleaseTag md ts) = m_collections md"
  "m_sourcePath (foldl applyReleaseTag md ts) = m_sourcePath md"
  "m_relativeSourcePath (foldl applyReleaseTag md ts) = m_relativeSourcePath md"
  "m_dateAdded (foldl applyReleaseTag md ts) = m_dateAdded md"
  "m_directoryCollection (foldl applyReleaseTag md ts) = m_directoryCollection md"
  "m_image (foldl applyReleaseTag md ts) = m_image md"
  by (induction ts arbitrary: md) (simp_all add: applyReleaseTag_frame)

lemma applyReleaseConfig_frame:
  "m_id (applyReleaseConfig md rc) = m_id md"
  "m_name (applyReleaseConfig md rc) = m_name md"
  "m_notes (applyReleaseConfig md rc) = m_notes md"
  "m_collections (applyReleaseConfig md rc) = m_collections md"
  "m_sourcePath (applyReleaseConfig md rc) = m_sourcePath md"
  "m_relativeSourcePath (applyReleaseConfig md rc) = m_relativeSourcePath md"
  "m_dateAdded (applyReleaseConfig md rc) = m_dateAdded md"
  "m_directoryCollection (applyReleaseConfig md rc) = m_directoryCollection md"
  "m_image (applyReleaseConfig md rc) = m_image md"
  by (simp_all add: applyReleaseConfig_def Let_def foldl_attr_frame foldl_tag_frame
        split: option.splits)

lemma foldl_config_frame:
  "m_id (foldl applyReleaseConfig md rs) = m_id md"
  "m_name (foldl applyReleaseConfig md rs) = m_name md"
  "m_notes (foldl applyReleaseConfig md rs) = m_notes md"
  "m_collections (foldl applyReleaseConfig md rs) = m_collections md"
  "m_sourcePath (foldl applyReleaseConfig md rs) = m_sourcePath md"
  "m_relativeSourcePath (foldl applyReleaseConfig md rs) = m_relativeSourcePath md"
  "m_dateAdded (foldl applyReleaseConfig md rs) = m_dateAdded md"
  "m_directoryCollection (foldl applyReleaseConfig md rs) = m_directoryCollection md"
  "m_image (foldl applyReleaseConfig md rs) = m_image md"
  by (induction rs arbitrary: md) (simp_all add: applyReleaseConfig_frame)

lemma applyReleaseAttribute_attributes:
  "m_attributes (applyReleaseAttribute md a) =
     (if list_ex (\<lambda>existing. a_key existing = a_key a) (m_attributes md) then m_attributes md
      else m_attributes md @ [\<lparr>a_key = a_key a, a_value = a_value a\<rparr>])"
  by (simp add: applyReleaseAttribute_def Let_def)

lemma applyReleaseAttribute_extend:
  assumes "attrs_extend own (m_attributes md)"
  shows "attrs_extend own (m_attributes (applyReleaseAttribute md a))"
proof -
  from assms obtain extra where e: "m_attributes md = own @ extra"
    "\<forall>a \<in> set extra. a_key a \<notin> a_key ` set own"
    by (auto simp: attrs_extend_def)
  show ?thesis
  proof (cases "list_ex (\<lambda>existing. a_key existing = a_key a) (m_attributes md)")
    case True
    then show ?thesis using assms by (simp add: applyReleaseAttribute_attributes)
  next
    case False
    then have "m_attributes (applyReleaseAttribute md a)
                 = own @ (extra @ [\<lparr>a_key = a_key a, a_value = a_value a\<rparr>])"
      using e(1) by (simp add: applyReleaseAttribute_attributes)
    moreover have "\<forall>b \<in> set (extra @ [\<lparr>a_key = a_key a, a_value = a_value a\<rparr>]).
                     a_key b \<notin> a_key ` set own"
      using False e by (auto simp: list_ex_iff)
    ultimately show ?thesis unfolding attrs_extend_def by blast
  qed
qed

lemma foldl_attr_extend:
  "attrs_extend own (m_attributes md) \<Longrightarrow>
   attrs_extend own (m_attributes (foldl applyReleaseAttribute md as))"
  by (induction as arbitrary: md) (simp_all add: applyReleaseAttribute_extend)

lemma applyReleaseTag_extend:
  assumes "tags_extend own (m_tags md)"
  shows "tags_extend own (m_tags (applyReleaseTag md t))"
proof -
  from assms obtain extra where e: "m_tags md = own @ extra" "set extra \<inter> set own = {}"
    "distinct extra"
    by (auto simp: tags_extend_def)
  show ?thesis
  proof (cases "t \<in> set (m_tags md)")
    case True
    then show ?thesis using assms by (simp add: applyReleaseTag_def)
  next
    case False
    then have "m_tags (applyReleaseTag md t) = own @ (extra @ [t])"
      using e(1) by (simp add: applyReleaseTag_def)
    moreover have "set (extra @ [t]) \<inter> set own = {}" "distinct (extra @ [t])"
      using False e by auto
    ultimately show ?thesis unfolding tags_extend_def by blast
  qed
qed

lemma foldl_tag_extend:
  "tags_extend own (m_tags md) \<Longrightarrow> tags_extend own (m_tags (foldl applyReleaseTag md ts))"
  by (induction ts arbitrary: md) (simp_all add: applyReleaseTag_extend)

lemma applyReleaseConfig_extend:
  "attrs_extend own (m_attributes md) \<Longrightarrow>
   attrs_extend own (m_attributes (applyReleaseConfig md rc))"
  "tags_extend ownT (m_tags md) \<Longrightarrow> tags_extend ownT (m_tags (applyReleaseConfig md rc))"
  by (simp_all add: applyReleaseConfig_def Let_def foldl_attr_extend foldl_tag_extend
        foldl_attr_frame foldl_tag_frame split: option.splits)

lemma foldl_config_extend:
  "attrs_extend own (m_attributes md) \<Longrightarrow>
   attrs_extend own (m_attributes (foldl applyReleaseConfig md rs))"
  "tags_extend ownT (m_tags md) \<Longrightarrow> tags_extend ownT (m_tags (foldl applyReleaseConfig md rs))"
  by (induction rs arbitrary: md) (simp_all add: applyReleaseConfig_extend)

text \<open>The tags after the loops are the union of the tags before and the release tags.\<close>

lemma foldl_tag_set: "set (m_tags (foldl applyReleaseTag md ts)) = set (m_tags md) \<union> set ts"
  by (induction ts arbitrary: md) (auto simp: applyReleaseTag_def)

lemma applyReleaseConfig_tag_set:
  "set (m_tags (applyReleaseConfig md rc)) = set (m_tags md) \<union> set (release_tags rc)"
  by (simp add: applyReleaseConfig_def Let_def release_tags_def foldl_tag_set foldl_attr_frame
        split: option.splits)

lemma foldl_config_tag_set:
  "set (m_tags (foldl applyReleaseConfig md rs))
     = set (m_tags md) \<union> (\<Union>rc \<in> set rs. set (release_tags rc))"
  by (induction rs arbitrary: md) (auto simp: applyReleaseConfig_tag_set)

subsection \<open>The model builder in parts\<close>

lemma generateStableId_stableId:
  "generateStableId e name configPath = stableId name (relativeToRoot e configPath)"
  by (simp add: generateStableId_def stableId_def relativeToRoot_def Let_def)

lemma processModelConfig_eq:
  "processModelConfig e fs existingModels now modelConfig configPath releaseConfigs =
     (if configPath = [] then Inl ConfigPathUndefined
      else (case modelmeta modelConfig of
              None \<Rightarrow> Inl TypeError
            | Some mm \<Rightarrow>
                Inr (foldl applyReleaseConfig
                       (baseModelData e fs existingModels now mm configPath) releaseConfigs)))"
proof (cases "configPath = []")
  case True
  then show ?thesis by (simp add: processModelConfig_def)
next
  case nonempty: False
  show ?thesis
  proof (cases "modelmeta modelConfig")
    case None
    then show ?thesis using nonempty by (simp add: processModelConfig_def)
  next
    case (Some mm)
    let ?mid = "generateStableId e
               (or_else (name_string (mm_name mm))
                  (fallbackName (dirname configPath)
                     (split_sep (dirname (relative (cwd e) (ORYNT3D_DIRECTORY e) configPath)))))
               configPath"
    have mid: "stableId (resolvedName e mm configPath) (relativeToRoot e configPath) = ?mid"
      by (simp add: generateStableId_stableId resolvedName_def relativeToRoot_def)
    consider (absent) "existingModels ?mid = None"
      | (web) p where "existingModels ?mid = Some p" "webPath p"
      | (raw) p where "existingModels ?mid = Some p" "\<not> webPath p"
      by (cases "existingModels ?mid") auto
    then have "processModelConfig e fs existingModels now modelConfig configPath releaseConfigs
               = Inr (foldl applyReleaseConfig
                        (baseModelData e fs existingModels now mm configPath) releaseConfigs)"
    proof cases
      case absent
      then show ?thesis
        using nonempty Some
        unfolding processModelConfig_def baseModelData_def mid
        by (simp add: Let_def resolveImage_def own_tags_def own_attributes_def
              directoryCollectionOf_def preservedImage_def resolvedName_def relativeToRoot_def)
    next
      case web
      then have "startsWith p ''/images/'' \<or> startsWith p ''http''" "p \<noteq> []"
        by (auto simp: webPath_def)
      then show ?thesis
        using nonempty Some web
        unfolding processModelConfig_def baseModelData_def mid
        by (simp add: Let_def own_tags_def own_attributes_def
              directoryCollectionOf_def preservedImage_def resolvedName_def relativeToRoot_def)
    next
      case raw
      then have "\<not> (startsWith p ''/images/'' \<or> startsWith p ''http'')"
        by (auto simp: webPath_def)
      then show ?thesis
        using nonempty Some raw
        unfolding processModelConfig_def baseModelData_def mid
        by (simp add: Let_def resolveImage_def own_tags_def own_attributes_def
              directoryCollectionOf_def preservedImage_def resolvedName_def relativeToRoot_def)
    qed
    then show ?thesis using nonempty Some by simp
  qed
qed


lemma processModelConfig_InrD:
  assumes "processModelConfig e fs existingModels now modelConfig configPath releaseConfigs = Inr md"
  obtains mm where "modelmeta modelConfig = Some mm" "configPath \<noteq> []"
    "md = foldl applyReleaseConfig (baseModelData e fs existingModels now mm configPath)
            releaseConfigs"
  using assms unfolding processModelConfig_eq
  by (auto split: if_splits option.splits)

text \<open>The entries of the second pass, apart from the counters.\<close>

lemma sp_models_Nil:
  "sp_models (processModelConfigs e src existingModels clock releaseConfigs i []) = []"
  by simp

lemma sp_models_Cons:
  "sp_models (processModelConfigs e src existingModels clock releaseConfigs i (filePath # rest)) =
     (case readConfig src filePath of
        None \<Rightarrow> sp_models (processModelConfigs e src existingModels clock releaseConfigs (Suc i) rest)
      | Some config \<Rightarrow>
          if isReleaseConfig config
          then sp_models (processModelConfigs e src existingModels clock releaseConfigs (Suc i) rest)
          else if isValidModelConfig config then
            (case processModelConfig e (files src) existingModels (clock i) config filePath
                    (findApplicableReleaseConfigs releaseConfigs filePath) of
               Inr modelData \<Rightarrow>
                 modelData
                 # sp_models (processModelConfigs e src existingModels clock releaseConfigs (Suc i) rest)
             | Inl err \<Rightarrow>
                 sp_models (processModelConfigs e src existingModels clock releaseConfigs (Suc i) rest))
          else sp_models (processModelConfigs e src existingModels clock releaseConfigs (Suc i) rest))"
  by (simp add: Let_def split: option.splits sum.splits)

declare processModelConfigs.simps(2) [simp del]

declare sp_models_Cons [simp]

text \<open>Every entry of the second pass comes from one model config of the list.\<close>

lemma processModelConfigs_set:
  assumes "md \<in> set (sp_models (processModelConfigs e src existingModels clock releaseConfigs i
                                  cfgFiles))"
  shows "\<exists>filePath config j.
           filePath \<in> set cfgFiles \<and> readConfig src filePath = Some config
         \<and> \<not> isReleaseConfig config \<and> isValidModelConfig config
         \<and> processModelConfig e (files src) existingModels (clock j) config filePath
              (findApplicableReleaseConfigs releaseConfigs filePath) = Inr md"
  using assms
proof (induction cfgFiles arbitrary: i)
  case Nil
  then show ?case by simp
next
  case (Cons filePath rest)
  show ?case
  proof (cases "md \<in> set (sp_models (processModelConfigs e src existingModels clock
                                         releaseConfigs (Suc i) rest))")
    case True
    from Cons.IH[OF this] show ?thesis by auto
  next
    case False
    with Cons.prems show ?thesis
      by (auto split: option.splits if_splits sum.splits)
  qed
qed

lemma mainExtractModelData_set:
  assumes "md \<in> set (models (mainExtractModelData e src existingData clock finished))"
  shows "\<exists>filePath config mm now rs.
           readConfig src filePath = Some config \<and> modelmeta config = Some mm
         \<and> filePath \<noteq> []
         \<and> md = foldl applyReleaseConfig
                  (baseModelData e (files src) (loadExistingDataFile existingData) now mm filePath)
                  rs"
proof -
  from assms obtain filePath config j where
    "readConfig src filePath = Some config"
    "processModelConfig e (files src) (loadExistingDataFile existingData) (clock j) config filePath
       (findApplicableReleaseConfigs
          (analyzeConfigFiles (readConfig src) (configFiles src)) filePath) = Inr md"
    unfolding mainExtractModelData_def Let_def
    using processModelConfigs_set by fastforce
  then show ?thesis
    by (elim processModelConfig_InrD) blast
qed

lemma baseModelData_fields:
  "m_id (baseModelData e fs ex now mm p) = stableId (resolvedName e mm p) (relativeToRoot e p)"
  "m_name (baseModelData e fs ex now mm p) = resolvedName e mm p"
  "m_relativeSourcePath (baseModelData e fs ex now mm p) = relativeToRoot e p"
  "m_sourcePath (baseModelData e fs ex now mm p) = p"
  "m_dateAdded (baseModelData e fs ex now mm p) = now"
  "m_tags (baseModelData e fs ex now mm p) = own_tags mm"
  "m_attributes (baseModelData e fs ex now mm p) = own_attributes mm"
  "m_image (baseModelData e fs ex now mm p) =
     (case preservedImage ex (stableId (resolvedName e mm p) (relativeToRoot e p)) of
        Some img \<Rightarrow> Some img
      | None \<Rightarrow> resolveImage fs (dirname p) (mm_cover mm))"
  by (simp_all add: baseModelData_def)

lemma extracted_id:
  assumes "md \<in> set (models (mainExtractModelData e src existingData clock finished))"
  shows "m_id md = stableId (m_name md) (m_relativeSourcePath md)"
  using mainExtractModelData_set[OF assms]
  by (auto simp: foldl_config_frame baseModelData_fields)

subsection \<open>The example tree, evaluated\<close>

lemma ex_rel: "relativeToRoot ex_env ex_goblin_path = ''Collection1/Goblin/config.orynt3d''"
  by (simp add: relativeToRoot_def ex_env_def ex_goblin_path_def path_eval)

lemma ex_dir: "dirname ex_goblin_path = ''/data/Collection1/Goblin''"
  by (simp add: ex_goblin_path_def path_eval)

lemma ex_name: "resolvedName ex_env ex_goblin_meta ex_goblin_path = ''Goblin''"
  by (simp add: resolvedName_def ex_goblin_meta_def or_else_def)

lemma ex_cover:
  "resolveImage ex_files ''/data/Collection1/Goblin'' (Some ''cover.png'')
     = Some ''/data/Collection1/Goblin/cover.png''"
  by (simp add: resolveImage_def ex_files_def path_eval fs_eval image_eval str_eval)

lemma ex_dc: "directoryCollectionOf ''Collection1/Goblin/config.orynt3d'' = Some ''Collection1''"
  by (simp add: directoryCollectionOf_def path_eval)

lemma ex_base:
  "baseModelData ex_env fs existingModels now ex_goblin_meta ex_goblin_path =
     \<lparr>m_id = stableId ''Goblin'' ''Collection1/Goblin/config.orynt3d'',
      m_name = ''Goblin'', m_notes = ''A goblin'', m_tags = [''monster'', ''fantasy''],
      m_collections = [],
      m_attributes = [\<lparr>a_key = ''release'', a_value = ''Own''\<rparr>],
      m_sourcePath = ex_goblin_path,
      m_relativeSourcePath = ''Collection1/Goblin/config.orynt3d'',
      m_dateAdded = now, m_directoryCollection = Some ''Collection1'',
      m_image = (case preservedImage existingModels
                        (stableId ''Goblin'' ''Collection1/Goblin/config.orynt3d'') of
                   Some img \<Rightarrow> Some img
                 | None \<Rightarrow> resolveImage fs ''/data/Collection1/Goblin'' (Some ''cover.png'')),
      m_release = None, m_subscription = None\<rparr>"
  unfolding baseModelData_def ex_rel ex_dir ex_name ex_dc
  by (simp add: ex_goblin_meta_def or_else_def own_tags_def own_attributes_def
        cong: option.case_cong)

lemma ex_apply:
  "applyReleaseConfig
     \<lparr>m_id = i, m_name = ''Goblin'', m_notes = ''A goblin'', m_tags = [''monster'', ''fantasy''],
      m_collections = [],
      m_attributes = [\<lparr>a_key = ''release'', a_value = ''Own''\<rparr>],
      m_sourcePath = ex_goblin_path,
      m_relativeSourcePath = ''Collection1/Goblin/config.orynt3d'',
      m_dateAdded = now, m_directoryCollection = Some ''Collection1'',
      m_image = img, m_release = None, m_subscription = None\<rparr>
     ex_release_config
   = \<lparr>m_id = i, m_name = ''Goblin'', m_notes = ''A goblin'',
      m_tags = [''monster'', ''fantasy'', ''winter''], m_collections = [],
      m_attributes = [\<lparr>a_key = ''release'', a_value = ''Own''\<rparr>,
                      \<lparr>a_key = ''scale'', a_value = ''32mm''\<rparr>],
      m_sourcePath = ex_goblin_path,
      m_relativeSourcePath = ''Collection1/Goblin/config.orynt3d'',
      m_dateAdded = now, m_directoryCollection = Some ''Collection1'',
      m_image = img, m_release = Some ''Winter2024'', m_subscription = None\<rparr>"
  by (simp add: applyReleaseConfig_def applyReleaseAttribute_def applyReleaseTag_def
        ex_release_config_def Let_def)

lemma ex_goblin_nonempty: "ex_goblin_path \<noteq> []"
  by (simp add: ex_goblin_path_def)

lemma ex_goblin_modelmeta: "modelmeta ex_goblin_config = Some ex_goblin_meta"
  by (simp add: ex_goblin_config_def)

text \<open>The example's model built with its release config applied.\<close>

lemma ex_processModelConfig_any:
  "processModelConfig ex_env fs existingModels now ex_goblin_config ex_goblin_path
     [ex_release_config]
   = Inr (ex_goblin_entry now
            (case preservedImage existingModels
                    (stableId ''Goblin'' ''Collection1/Goblin/config.orynt3d'') of
               Some img \<Rightarrow> Some img
             | None \<Rightarrow> resolveImage fs ''/data/Collection1/Goblin'' (Some ''cover.png'')))"
  by (simp add: processModelConfig_eq ex_goblin_nonempty ex_goblin_modelmeta ex_base ex_apply
        ex_goblin_entry_def)

lemma ex_processModelConfig:
  "processModelConfig ex_env ex_files existingModels now ex_goblin_config ex_goblin_path
     [ex_release_config]
   = Inr (ex_goblin_entry now
            (case preservedImage existingModels
                    (stableId ''Goblin'' ''Collection1/Goblin/config.orynt3d'') of
               Some img \<Rightarrow> Some img
             | None \<Rightarrow> Some ''/data/Collection1/Goblin/cover.png''))"
  by (simp add: ex_processModelConfig_any ex_cover cong: option.case_cong)

lemma ex_classify:
  "isReleaseConfig ex_release_config" "\<not> isReleaseConfig ex_goblin_config"
  "isValidModelConfig ex_goblin_config" "\<not> isReleaseConfig ex_dragon_config"
  "isValidModelConfig ex_dragon_config"
  by (simp_all add: isReleaseConfig_def isValidModelConfig_def ex_release_config_def
        ex_goblin_config_def ex_goblin_meta_def ex_dragon_config_def)

lemma ex_analyze:
  "analyzeConfigFiles (readConfig ex_tree) (configFiles ex_tree)
     = [(''/data/Collection1/config.orynt3d'', ex_release_config, ''/data/Collection1'')]"
  "analyzeConfigFiles (readConfig ex_tree2) (configFiles ex_tree2)
     = [(''/data/Collection1/config.orynt3d'', ex_release_config, ''/data/Collection1'')]"
  by (simp_all add: analyzeConfigFiles_def ex_tree_def ex_tree2_def ex_classify ex_goblin_path_def
        dirname_def)

lemma ex_applicable:
  "findApplicableReleaseConfigs
     [(''/data/Collection1/config.orynt3d'', ex_release_config, ''/data/Collection1'')]
     ex_goblin_path = [ex_release_config]"
  "findApplicableReleaseConfigs
     [(''/data/Collection1/config.orynt3d'', ex_release_config, ''/data/Collection1'')]
     ''/data/Dragon/config.orynt3d'' = []"
  by (simp_all add: findApplicableReleaseConfigs_def ex_dir applies_def)
     (simp add: dirname_def)

lemma ex_extract_any:
  "models (mainExtractModelData ex_env (ex_tree\<lparr>files := fs\<rparr>) existingData clock finished)
     = [ex_goblin_entry (clock 1)
          (case preservedImage (loadExistingDataFile existingData)
                  (stableId ''Goblin'' ''Collection1/Goblin/config.orynt3d'') of
             Some img \<Rightarrow> Some img
           | None \<Rightarrow> resolveImage fs ''/data/Collection1/Goblin'' (Some ''cover.png''))]"
proof -
  have rd: "readConfig ex_tree ''/data/Collection1/config.orynt3d'' = Some ex_release_config"
    "readConfig ex_tree ex_goblin_path = Some ex_goblin_config"
    "configFiles ex_tree = [''/data/Collection1/config.orynt3d'', ex_goblin_path]"
    by (simp_all add: ex_tree_def ex_goblin_path_def)
  have an: "analyzeConfigFiles (readConfig ex_tree)
              [''/data/Collection1/config.orynt3d'', ex_goblin_path]
            = [(''/data/Collection1/config.orynt3d'', ex_release_config, ''/data/Collection1'')]"
    using ex_analyze(1) by (simp add: rd)
  show ?thesis
    unfolding mainExtractModelData_def Let_def
    by (simp add: an rd ex_classify ex_applicable ex_processModelConfig_any)
qed

lemma ex_extract:
  "models (mainExtractModelData ex_env ex_tree existingData clock finished)
     = [ex_goblin_entry (clock 1)
          (case preservedImage (loadExistingDataFile existingData)
                  (stableId ''Goblin'' ''Collection1/Goblin/config.orynt3d'') of
             Some img \<Rightarrow> Some img
           | None \<Rightarrow> Some ''/data/Collection1/Goblin/cover.png'')]"
proof -
  have "ex_tree\<lparr>files := ex_files\<rparr> = ex_tree" by (simp add: ex_tree_def)
  with ex_extract_any[of ex_files existingData clock finished] show ?thesis
    by (simp add: ex_cover cong: option.case_cong)
qed


lemma ex_extract2:
  "ex_goblin_entry (clock 2)
     (case preservedImage (loadExistingDataFile existingData)
             (stableId ''Goblin'' ''Collection1/Goblin/config.orynt3d'') of
        Some img \<Rightarrow> Some img
      | None \<Rightarrow> Some ''/data/Collection1/Goblin/cover.png'')
   \<in> set (models (mainExtractModelData ex_env ex_tree2 existingData clock finished))"
proof -
  have rd: "readConfig ex_tree2 ''/data/Collection1/config.orynt3d'' = Some ex_release_config"
    "readConfig ex_tree2 ex_goblin_path = Some ex_goblin_config"
    "readConfig ex_tree2 ''/data/Dragon/config.orynt3d'' = Some ex_dragon_config"
    "configFiles ex_tree2
       = [''/data/Dragon/config.orynt3d'', ''/data/Collection1/config.orynt3d'', ex_goblin_path]"
    "files ex_tree2 = ex_files"
    by (simp_all add: ex_tree2_def ex_goblin_path_def)
  have "modelmeta ex_dragon_config \<noteq> None"
    by (simp add: ex_dragon_config_def)
  then obtain dragon where dragon:
    "processModelConfig ex_env ex_files (loadExistingDataFile existingData) (clock 0)
       ex_dragon_config ''/data/Dragon/config.orynt3d'' [] = Inr dragon"
    by (auto simp: processModelConfig_eq)
  show ?thesis
    unfolding mainExtractModelData_def Let_def ex_analyze
    by (simp add: rd ex_classify ex_applicable ex_processModelConfig dragon numeral_2_eq_2)
qed

section \<open>Facts about the build script\<close>

lemma findIndex_Some:
  "findIndex P xs = Some i \<Longrightarrow> i < length xs \<and> P (xs ! i)"
proof (induction xs arbitrary: i)
  case Nil
  then show ?case by simp
next
  case (Cons x xs)
  then show ?case by (cases "P x") (auto simp: nth_Cons split: nat.splits)
qed

lemma findIndex_None: "findIndex P xs = None \<Longrightarrow> x \<in> set xs \<Longrightarrow> \<not> P x"
  by (induction xs) (auto split: if_splits)

lemma findIndex_distinct:
  "distinct (map f xs) \<Longrightarrow> j < length xs \<Longrightarrow> findIndex (\<lambda>m. f m = f (xs ! j)) xs = Some j"
proof (induction xs arbitrary: j)
  case Nil
  then show ?case by simp
next
  case (Cons x xs)
  show ?case
  proof (cases j)
    case 0
    then show ?thesis by simp
  next
    case (Suc k)
    with Cons.prems have "k < length xs" "f x \<noteq> f (xs ! k)" by auto
    with Cons Suc show ?thesis by auto
  qed
qed

lemma drop_nth_Cons: "j < length xs \<Longrightarrow> drop j xs = xs ! j # drop (Suc j) xs"
  by (simp add: Cons_nth_drop_Suc)

lemma same_hashes_refl: "same_hashes c c"
  by (simp add: same_hashes_def)

lemma same_hashes_trans: "same_hashes c c' \<Longrightarrow> same_hashes c' c'' \<Longrightarrow> same_hashes c c''"
  by (simp add: same_hashes_def)

lemma setCacheImagePath_hashes:
  assumes "same_hashes c (cache st)"
  shows "same_hashes c (cache (setCacheImagePath st modelId v))"
proof (cases "cache st modelId")
  case None
  then show ?thesis using assms by (simp add: setCacheImagePath_def)
next
  case (Some entry)
  have "map_option c_hash (cache st x) = map_option c_hash (c x)" for x
    using assms by (simp add: same_hashes_def)
  from this[of modelId] this show ?thesis
    using Some by (simp add: same_hashes_def setCacheImagePath_def)
qed

lemma setCacheImagePath_frame:
  "data (setCacheImagePath st modelId v) = data st"
  "copies (setCacheImagePath st modelId v) = copies st"
  by (simp_all add: setCacheImagePath_def split: option.splits)

lemma setImage_frame:
  "data (setImage st k v) = (data st)[k := (data st ! k)\<lparr>m_image := Some v\<rparr>]"
  "cache (setImage st k v) = cache st"
  "copies (setImage st k v) = copies st"
  by (simp_all add: setImage_def)

text \<open>
  What one copy attempt does: the entry at the index gets an image in published form, the
  cache keeps its hashes, and at most the one copy for this model is added.
\<close>

lemma copyImage_effect:
  "\<exists>v cp. webPath v
     \<and> data (copyImage pub fs st k model src) = (data st)[k := (data st ! k)\<lparr>m_image := Some v\<rparr>]
     \<and> same_hashes (cache st) (cache (copyImage pub fs st k model src))
     \<and> copies (copyImage pub fs st k model src) = copies st @ cp
     \<and> (\<forall>x \<in> set cp. fst x = m_id model)"
proof (cases "copyFileSync_ok fs src")
  case True
  let ?v = "''/images/'' @ ''model-'' @ m_id model @ ''-'' @ basename src"
  have "webPath ?v" by (simp add: webPath_def)
  then show ?thesis using True
    by (intro exI[of _ ?v] exI[of _ "[(m_id model, src, join pub (''model-'' @ m_id model @ ''-'' @ basename src))]"])
       (simp add: copyImage_def Let_def setCacheImagePath_frame setImage_frame
          setCacheImagePath_hashes same_hashes_refl)
next
  case False
  then show ?thesis
    by (intro exI[of _ placeholder] exI[of _ "[]"])
       (simp add: copyImage_def Let_def setImage_frame webPath_placeholder same_hashes_refl)
qed

lemma processModelImage_cases:
  assumes "j < length (data st)"
  obtains (same) "processModelImage pub fs st j = st" "webShaped (m_image (data st ! j))"
  | (changed) k v cp where
      "findIndex (\<lambda>m. m_id m = m_id (data st ! j)) (data st) = Some k"
      "\<not> webShaped (m_image (data st ! j))" "webPath v"
      "data (processModelImage pub fs st j) = (data st)[k := (data st ! k)\<lparr>m_image := Some v\<rparr>]"
      "same_hashes (cache st) (cache (processModelImage pub fs st j))"
      "copies (processModelImage pub fs st j) = copies st @ cp"
      "\<forall>x \<in> set cp. fst x = m_id (data st ! j)"
proof -
  let ?model = "data st ! j"
  from assms have mem: "?model \<in> set (data st)" by simp
  obtain k where k: "findIndex (\<lambda>m. m_id m = m_id ?model) (data st) = Some k"
    using findIndex_None[OF _ mem, of "\<lambda>m. m_id m = m_id ?model"]
    by (cases "findIndex (\<lambda>m. m_id m = m_id ?model) (data st)") auto
  have dr: "drop j (data st) = ?model # drop (Suc j) (data st)"
    using assms by (rule drop_nth_Cons)
  show thesis
  proof (cases "webShaped (m_image ?model)")
    case True
    then obtain img where img: "m_image ?model = Some img" "webPath img"
      by (auto simp: webShaped_def split: option.splits)
    then have "img \<noteq> []" "startsWith img ''http'' \<or> startsWith img ''/images/''"
      by (auto simp: webPath_def)
    then have "processModelImage pub fs st j = st"
      using img k dr by (auto simp: processModelImage_def)
    then show ?thesis using True by (rule same)
  next
    case False
    have pl: "\<exists>v cp. webPath v
        \<and> data (setImage st k placeholder) = (data st)[k := (data st ! k)\<lparr>m_image := Some v\<rparr>]
        \<and> same_hashes (cache st) (cache (setImage st k placeholder))
        \<and> copies (setImage st k placeholder) = copies st @ cp
        \<and> (\<forall>x \<in> set cp. fst x = m_id ?model)"
      by (intro exI[of _ placeholder] exI[of _ "[]"])
         (simp add: setImage_frame webPath_placeholder same_hashes_refl)
    have "\<exists>v cp. webPath v
        \<and> data (processModelImage pub fs st j) = (data st)[k := (data st ! k)\<lparr>m_image := Some v\<rparr>]
        \<and> same_hashes (cache st) (cache (processModelImage pub fs st j))
        \<and> copies (processModelImage pub fs st j) = copies st @ cp
        \<and> (\<forall>x \<in> set cp. fst x = m_id ?model)"
    proof (cases "m_image ?model")
      case None
      then show ?thesis using pl k dr by (simp add: processModelImage_def)
    next
      case (Some img)
      with False have nw: "\<not> startsWith img ''http''" "\<not> startsWith img ''/images/''"
        by (auto simp: webShaped_def webPath_def)
      show ?thesis
      proof (cases "img = []")
        case True
        then show ?thesis using pl k dr Some by (simp add: processModelImage_def)
      next
        case ne: False
        show ?thesis
        proof (cases "existsSync fs img")
          case True
          then show ?thesis
            using copyImage_effect[of pub fs st k ?model img] k dr Some nw ne
            by (simp add: processModelImage_def)
        next
          case nex: False
          show ?thesis
          proof (cases "m_sourcePath ?model \<noteq> []
                        \<and> findAlternativeImage fs (dirname (m_sourcePath ?model)) (m_name ?model) \<noteq> None")
            case True
            then obtain alt where
              "findAlternativeImage fs (dirname (m_sourcePath ?model)) (m_name ?model) = Some alt"
              by auto
            then show ?thesis
              using copyImage_effect[of pub fs st k ?model alt] k dr Some nw ne nex True
              by (simp add: processModelImage_def)
          next
            case False
            then show ?thesis
              using pl k dr Some nw ne nex
              by (auto simp: processModelImage_def)
          qed
        qed
      qed
    qed
    then obtain v cp where "webPath v"
      "data (processModelImage pub fs st j) = (data st)[k := (data st ! k)\<lparr>m_image := Some v\<rparr>]"
      "same_hashes (cache st) (cache (processModelImage pub fs st j))"
      "copies (processModelImage pub fs st j) = copies st @ cp"
      "\<forall>x \<in> set cp. fst x = m_id ?model"
      by blast
    with k False show ?thesis by (rule changed)
  qed
qed


lemma update_image_ids:
  "map m_id (xs[k := (xs ! k)\<lparr>m_image := v\<rparr>]) = map m_id xs"
proof (rule nth_equalityI)
  show "length (map m_id (xs[k := (xs ! k)\<lparr>m_image := v\<rparr>])) = length (map m_id xs)"
    by simp
next
  fix i assume "i < length (map m_id (xs[k := (xs ! k)\<lparr>m_image := v\<rparr>]))"
  then have "i < length xs" by simp
  then show "map m_id (xs[k := (xs ! k)\<lparr>m_image := v\<rparr>]) ! i = map m_id xs ! i"
    by (cases "i = k") simp_all
qed

lemma processModelImage_ids:
  assumes "j < length (data st)"
  shows "map m_id (data (processModelImage pub fs st j)) = map m_id (data st)"
  using assms
  by (cases rule: processModelImage_cases[of j st pub fs]) (simp_all add: update_image_ids)

lemma processModelImage_length:
  assumes "j < length (data st)"
  shows "length (data (processModelImage pub fs st j)) = length (data st)"
  using processModelImage_ids[OF assms, of pub fs]
  by (metis length_map)

text \<open>Processing a model whose image is in published form changes nothing.\<close>

lemma processModelImage_web:
  assumes "j < length (data st)" "webShaped (m_image (data st ! j))"
  shows "processModelImage pub fs st j = st"
  using assms
  by (cases rule: processModelImage_cases[of j st pub fs]) simp_all

lemma processModelImages_web:
  "\<forall>j \<in> set js. j < length (data st) \<and> webShaped (m_image (data st ! j)) \<Longrightarrow>
   processModelImages pub fs st js = st"
  unfolding processModelImages_def
  by (induction js) (simp_all add: processModelImage_web)

lemma processModelImage_keeps_image:
  assumes "keeps_image X I st" "webPath I" "j < length (data st)"
  shows "keeps_image X I (processModelImage pub fs st j)"
  using assms(3)
proof (cases rule: processModelImage_cases[of j st pub fs])
  case same
  then show ?thesis using assms by simp
next
  case (changed k v cp)
  from changed(1) have k: "k < length (data st)" "m_id (data st ! k) = m_id (data st ! j)"
    using findIndex_Some by fastforce+
  have notX: "m_id (data st ! j) \<noteq> X"
  proof
    assume "m_id (data st ! j) = X"
    with assms(1,3) have "m_image (data st ! j) = Some I"
      by (simp add: keeps_image_def)
    with assms(2) changed(2) show False by (simp add: webShaped_def)
  qed
  have "\<forall>m \<in> set (data (processModelImage pub fs st j)). m_id m = X \<longrightarrow> m_image m = Some I"
  proof
    fix m assume "m \<in> set (data (processModelImage pub fs st j))"
    then have "m \<in> set ((data st)[k := (data st ! k)\<lparr>m_image := Some v\<rparr>])"
      by (simp add: changed(4))
    then have "m = (data st ! k)\<lparr>m_image := Some v\<rparr> \<or> m \<in> set (data st)"
      using set_update_subset_insert[of "data st" k "(data st ! k)\<lparr>m_image := Some v\<rparr>"]
      by auto
    then show "m_id m = X \<longrightarrow> m_image m = Some I"
      using assms(1) k notX by (auto simp: keeps_image_def)
  qed
  moreover have "\<forall>x \<in> set (copies (processModelImage pub fs st j)). fst x \<noteq> X"
    using assms(1) changed(6,7) notX by (auto simp: keeps_image_def)
  ultimately show ?thesis by (simp add: keeps_image_def)
qed

lemma processModelImages_keeps_image:
  assumes "keeps_image X I st" "webPath I" "\<forall>j \<in> set js. j < length (data st)"
  shows "keeps_image X I (processModelImages pub fs st js)"
  using assms unfolding processModelImages_def
proof (induction js arbitrary: st)
  case Nil
  then show ?case by simp
next
  case (Cons j js)
  then have "j < length (data st)" by simp
  note step = processModelImage_keeps_image[OF Cons.prems(1,2) this, of pub fs]
    processModelImage_length[OF this, of pub fs]
  show ?case
    using Cons.IH[OF step(1) Cons.prems(2)] Cons.prems(3) step(2) by simp
qed


text \<open>
  With distinct ids, the loop over a list of indices changes the image of those entries
  only, leaves each of them with an image in published form, and keeps the hashes.
\<close>

lemma processModelImage_distinct:
  assumes "distinct (map m_id (data st))" "j < length (data st)"
  shows "\<exists>v. data (processModelImage pub fs st j) = (data st)[j := (data st ! j)\<lparr>m_image := v\<rparr>]
           \<and> webShaped v"
        "same_hashes (cache st) (cache (processModelImage pub fs st j))"
proof -
  have idx: "findIndex (\<lambda>m. m_id m = m_id (data st ! j)) (data st) = Some j"
    using assms by (rule findIndex_distinct)
  show "\<exists>v. data (processModelImage pub fs st j) = (data st)[j := (data st ! j)\<lparr>m_image := v\<rparr>]
           \<and> webShaped v"
    using assms(2)
  proof (cases rule: processModelImage_cases[of j st pub fs])
    case same
    then show ?thesis
      by (intro exI[of _ "m_image (data st ! j)"]) simp
  next
    case (changed k v cp)
    with idx have "k = j" by simp
    with changed show ?thesis
      by (intro exI[of _ "Some v"]) (simp add: webShaped_def)
  qed
  show "same_hashes (cache st) (cache (processModelImage pub fs st j))"
    using assms(2)
    by (cases rule: processModelImage_cases[of j st pub fs]) (simp_all add: same_hashes_refl)
qed

lemma only_images_changed_ids: "only_images_changed ms js ms' \<Longrightarrow> map m_id ms' = map m_id ms"
proof (rule nth_equalityI)
  assume a: "only_images_changed ms js ms'"
  then show "length (map m_id ms') = length (map m_id ms)"
    by (simp add: only_images_changed_def)
  fix i assume "i < length (map m_id ms')"
  with a have i: "i < length ms" "i < length ms'" by (simp_all add: only_images_changed_def)
  with a have "ms' ! i = (ms ! i)\<lparr>m_image := m_image (ms' ! i)\<rparr>"
    by (simp add: only_images_changed_def)
  then obtain x where "ms' ! i = (ms ! i)\<lparr>m_image := x\<rparr>" ..
  then have "m_id (ms' ! i) = m_id (ms ! i)"
    by simp
  then show "map m_id ms' ! i = map m_id ms ! i" using i by simp
qed

lemma processModelImages_distinct:
  assumes "distinct (map m_id (data st))" "\<forall>j \<in> set js. j < length (data st)"
  shows "only_images_changed (data st) (set js) (data (processModelImages pub fs st js))
       \<and> same_hashes (cache st) (cache (processModelImages pub fs st js))"
  using assms(2)
proof (induction js rule: rev_induct)
  case Nil
  then show ?case
    by (simp add: processModelImages_def only_images_changed_def same_hashes_refl)
next
  case (snoc j js)
  let ?st = "processModelImages pub fs st js"
  from snoc have IH: "only_images_changed (data st) (set js) (data ?st)"
    "same_hashes (cache st) (cache ?st)" and j: "j < length (data st)"
    by simp_all
  have ids: "map m_id (data ?st) = map m_id (data st)"
    using IH(1) by (rule only_images_changed_ids)
  then have d: "distinct (map m_id (data ?st))" and len: "length (data ?st) = length (data st)"
    using assms(1) by (simp, metis length_map)
  have j': "j < length (data ?st)" using j len by simp
  have step: "processModelImages pub fs st (js @ [j]) = processModelImage pub fs ?st j"
    by (simp add: processModelImages_def)
  from processModelImage_distinct[OF d j', of pub fs] obtain v where
    v: "data (processModelImage pub fs ?st j) = (data ?st)[j := (data ?st ! j)\<lparr>m_image := v\<rparr>]"
       "webShaped v"
    and h: "same_hashes (cache ?st) (cache (processModelImage pub fs ?st j))"
    by blast
  have "only_images_changed (data st) (set (js @ [j])) (data (processModelImage pub fs ?st j))"
    unfolding only_images_changed_def v(1)
  proof (intro conjI allI impI)
    show "length ((data ?st)[j := (data ?st ! j)\<lparr>m_image := v\<rparr>]) = length (data st)"
      using len by simp
  next
    fix i assume i: "i < length (data st)"
    from IH(1) i have "data ?st ! i = (data st ! i)\<lparr>m_image := m_image (data ?st ! i)\<rparr>"
      by (simp add: only_images_changed_def)
    then obtain x where e: "data ?st ! i = (data st ! i)\<lparr>m_image := x\<rparr>" ..
    show "(data ?st)[j := (data ?st ! j)\<lparr>m_image := v\<rparr>] ! i
            = (data st ! i)\<lparr>m_image := m_image ((data ?st)[j := (data ?st ! j)\<lparr>m_image := v\<rparr>] ! i)\<rparr>"
    proof (cases "i = j")
      case True
      then show ?thesis using j' e by simp
    next
      case False
      then show ?thesis using e by simp
    qed
  next
    fix i assume i: "i < length (data st)" "i \<in> set (js @ [j])"
    show "webShaped (m_image ((data ?st)[j := (data ?st ! j)\<lparr>m_image := v\<rparr>] ! i))"
    proof (cases "i = j")
      case True
      then show ?thesis using j' v(2) by simp
    next
      case False
      with i have "i \<in> set js" by simp
      with IH(1) i(1) False show ?thesis by (simp add: only_images_changed_def)
    qed
  next
    fix i assume i: "i < length (data st)" "i \<notin> set (js @ [j])"
    then have "i \<noteq> j" "i \<notin> set js" by auto
    with IH(1) i(1) show "(data ?st)[j := (data ?st ! j)\<lparr>m_image := v\<rparr>] ! i = data st ! i"
      by (simp add: only_images_changed_def)
  qed
  moreover have "same_hashes (cache st) (cache (processModelImage pub fs ?st j))"
    using IH(2) h by (rule same_hashes_trans)
  ultimately show ?case unfolding step by simp
qed


subsection \<open>Categorizing\<close>

lemma isNewOrModified_cong:
  "c1 (m_id model) = c (m_id model) \<Longrightarrow> isNewOrModified c1 model = isNewOrModified c model"
  by (simp add: isNewOrModified_def)

lemma unchanged_hash:
  "\<not> isNewOrModified c m \<Longrightarrow> map_option c_hash (c (m_id m)) = Some (calculateModelHash m)"
  by (auto simp: isNewOrModified_def split: option.splits)

text \<open>
  The loop of \<^verbatim>\<open>categorizeModels\<close> over models with distinct ids: each model is tested
  against the cache as it was at the start, and afterwards the cache holds the hash of
  every model of the list and is unchanged elsewhere.
\<close>

lemma categorize_fold:
  assumes "distinct (map (\<lambda>im. m_id (snd im)) es)"
  shows "\<exists>c'. foldl (categorizeModel clock) (nw, un, c) es
              = (nw @ map fst (filter (\<lambda>im. isNewOrModified c (snd im)) es),
                 un @ map fst (filter (\<lambda>im. \<not> isNewOrModified c (snd im)) es), c')
            \<and> (\<forall>im \<in> set es. map_option c_hash (c' (m_id (snd im)))
                                = Some (calculateModelHash (snd im)))
            \<and> (\<forall>x. x \<notin> (\<lambda>im. m_id (snd im)) ` set es \<longrightarrow> c' x = c x)"
  using assms
proof (induction es arbitrary: nw un c)
  case Nil
  then show ?case by simp
next
  case (Cons im es)
  obtain i m where im: "im = (i, m)" by (cases im)
  define c1 where "c1 = (if isNewOrModified c m
      then c(m_id m \<mapsto> \<lparr>c_hash = calculateModelHash m, c_lastProcessed = clock i,
                          c_imagePath = None\<rparr>)
      else c)"
  define nw1 where "nw1 = (if isNewOrModified c m then nw @ [i] else nw)"
  define un1 where "un1 = (if isNewOrModified c m then un else un @ [i])"
  have step: "categorizeModel clock (nw, un, c) im = (nw1, un1, c1)"
    by (simp add: categorizeModel_def im c1_def nw1_def un1_def)
  from Cons.prems have d: "distinct (map (\<lambda>im. m_id (snd im)) es)"
    and fresh: "m_id m \<notin> (\<lambda>im. m_id (snd im)) ` set es"
    by (simp_all add: im)
  have agree: "\<forall>x. x \<noteq> m_id m \<longrightarrow> c1 x = c x"
    by (simp add: c1_def)
  have same_test: "\<forall>im' \<in> set es. isNewOrModified c1 (snd im') = isNewOrModified c (snd im')"
  proof
    fix im' assume "im' \<in> set es"
    with fresh have "m_id (snd im') \<noteq> m_id m" by force
    with agree show "isNewOrModified c1 (snd im') = isNewOrModified c (snd im')"
      by (intro isNewOrModified_cong) simp
  qed
  have f1: "filter (\<lambda>im. isNewOrModified c1 (snd im)) es = filter (\<lambda>im. isNewOrModified c (snd im)) es"
    and f2: "filter (\<lambda>im. \<not> isNewOrModified c1 (snd im)) es
               = filter (\<lambda>im. \<not> isNewOrModified c (snd im)) es"
    using same_test by (auto intro: filter_cong)
  have own: "map_option c_hash (c1 (m_id m)) = Some (calculateModelHash m)"
    using unchanged_hash[of c m] by (cases "isNewOrModified c m") (simp_all add: c1_def)
  from Cons.IH[OF d, of nw1 un1 c1] obtain c' where
    c': "foldl (categorizeModel clock) (nw1, un1, c1) es
              = (nw1 @ map fst (filter (\<lambda>im. isNewOrModified c1 (snd im)) es),
                 un1 @ map fst (filter (\<lambda>im. \<not> isNewOrModified c1 (snd im)) es), c')"
        "\<forall>im \<in> set es. map_option c_hash (c' (m_id (snd im)))
                                = Some (calculateModelHash (snd im))"
        "\<forall>x. x \<notin> (\<lambda>im. m_id (snd im)) ` set es \<longrightarrow> c' x = c1 x"
    by blast
  have "foldl (categorizeModel clock) (nw, un, c) (im # es)
          = (nw @ map fst (filter (\<lambda>im. isNewOrModified c (snd im)) (im # es)),
             un @ map fst (filter (\<lambda>im. \<not> isNewOrModified c (snd im)) (im # es)), c')"
    using c'(1) step by (simp add: f1 f2 im nw1_def un1_def)
  moreover have "\<forall>im' \<in> set (im # es). map_option c_hash (c' (m_id (snd im')))
                                = Some (calculateModelHash (snd im'))"
    using c'(2,3) fresh own by (simp add: im)
  moreover have "\<forall>x. x \<notin> (\<lambda>im. m_id (snd im)) ` set (im # es) \<longrightarrow> c' x = c x"
    using c'(3) agree by (simp add: im)
  ultimately show ?case by blast
qed

lemma zip_upt_snd: "map snd (zip [0..<length ms] ms) = ms"
  by (simp add: map_snd_zip)

lemma zip_upt_set: "im \<in> set (zip [0..<length ms] ms) \<longleftrightarrow> fst im < length ms \<and> snd im = ms ! fst im"
proof (cases im)
  case (Pair i m)
  show ?thesis
  proof
    assume "im \<in> set (zip [0..<length ms] ms)"
    then show "fst im < length ms \<and> snd im = ms ! fst im"
      by (auto simp: set_zip Pair)
  next
    assume "fst im < length ms \<and> snd im = ms ! fst im"
    then have "i < length ms" "m = ms ! i" by (simp_all add: Pair)
    then have "(i, m) = ([0..<length ms] ! i, ms ! i)" "i < min (length [0..<length ms]) (length ms)"
      by simp_all
    then show "im \<in> set (zip [0..<length ms] ms)"
      unfolding Pair set_zip by blast
  qed
qed

lemma categorizeModels_distinct:
  assumes "distinct (map m_id ms)"
  obtains newModels unchangedModels c' where
    "categorizeModels clock ms c = (newModels, unchangedModels, c')"
    "\<forall>j \<in> set newModels. j < length ms \<and> isNewOrModified c (ms ! j)"
    "\<forall>j < length ms. isNewOrModified c (ms ! j) \<longrightarrow> j \<in> set newModels"
    "hashes_known c' ms"
proof -
  let ?es = "zip [0..<length ms] ms"
  have "map (\<lambda>im. m_id (snd im)) ?es = map m_id ms"
    using zip_upt_snd[of ms] by (metis (no_types, lifting) map_map o_def map_eq_conv)
  with assms have "distinct (map (\<lambda>im. m_id (snd im)) ?es)" by simp
  from categorize_fold[OF this, of clock "[]" "[]" c] obtain c' where
    c': "categorizeModels clock ms c
           = (map fst (filter (\<lambda>im. isNewOrModified c (snd im)) ?es),
              map fst (filter (\<lambda>im. \<not> isNewOrModified c (snd im)) ?es), c')"
        "\<forall>im \<in> set ?es. map_option c_hash (c' (m_id (snd im)))
                                = Some (calculateModelHash (snd im))"
    by (auto simp: categorizeModels_def)
  have n1: "\<forall>j \<in> set (map fst (filter (\<lambda>im. isNewOrModified c (snd im)) ?es)).
              j < length ms \<and> isNewOrModified c (ms ! j)"
    by (auto simp: zip_upt_set)
  have n2: "\<forall>j < length ms. isNewOrModified c (ms ! j)
              \<longrightarrow> j \<in> set (map fst (filter (\<lambda>im. isNewOrModified c (snd im)) ?es))"
  proof (intro allI impI)
    fix j assume "j < length ms" "isNewOrModified c (ms ! j)"
    then have "(j, ms ! j) \<in> set (filter (\<lambda>im. isNewOrModified c (snd im)) ?es)"
      by (simp add: zip_upt_set)
    then show "j \<in> set (map fst (filter (\<lambda>im. isNewOrModified c (snd im)) ?es))"
      by force
  qed
  have h: "hashes_known c' ms"
    unfolding hashes_known_def
  proof
    fix m assume "m \<in> set ms"
    then obtain j where "j < length ms" "m = ms ! j" by (auto simp: in_set_conv_nth)
    then have "(j, m) \<in> set ?es" by (simp add: zip_upt_set)
    with c'(2) show "map_option c_hash (c' (m_id m)) = Some (calculateModelHash m)"
      by force
  qed
  from c'(1) n1 n2 h show thesis by (rule that)
qed


text \<open>The new-or-modified list only holds positions of the catalog.\<close>

lemma categorize_fold_indices:
  "set (fst (foldl (categorizeModel clock) (nw, un, c) es)) \<subseteq> set nw \<union> fst ` set es"
proof (induction es arbitrary: nw un c)
  case Nil
  then show ?case by simp
next
  case (Cons im es)
  obtain i m where im: "im = (i, m)" by (cases im)
  show ?case
  proof (cases "isNewOrModified c m")
    case True
    then have "categorizeModel clock (nw, un, c) im
                 = (nw @ [i], un, c(m_id m \<mapsto> \<lparr>c_hash = calculateModelHash m,
                      c_lastProcessed = clock i, c_imagePath = None\<rparr>))"
      by (simp add: categorizeModel_def im)
    then show ?thesis using Cons.IH[of "nw @ [i]" un] by (auto simp: im)
  next
    case False
    then have "categorizeModel clock (nw, un, c) im = (nw, un @ [i], c)"
      by (simp add: categorizeModel_def im)
    then show ?thesis using Cons.IH[of nw "un @ [i]" c] by (auto simp: im)
  qed
qed

lemma categorizeModels_indices:
  "categorizeModels clock ms c = (newModels, unchangedModels, c') \<Longrightarrow>
   \<forall>j \<in> set newModels. j < length ms"
  using categorize_fold_indices[of clock "[]" "[]" c "zip [0..<length ms] ms"]
  by (auto simp: categorizeModels_def zip_upt_set)

subsection \<open>The build as a whole\<close>

lemma buildNextjsApp_eq:
  assumes "categorizeModels clock (models d)
             (bc_models (case savedCache of Some c \<Rightarrow> c
                         | None \<Rightarrow> \<lparr>bc_models = Map.empty, bc_lastBuild = None\<rparr>))
           = (newModels, unchangedModels, c1)"
  shows "buildNextjsApp pub fs d savedCache clock finished =
     (d\<lparr>models := data (processModelImages pub fs
                           \<lparr>data = models d, cache = c1, copies = []\<rparr> newModels)\<rparr>,
      \<lparr>bc_models = cache (processModelImages pub fs
                           \<lparr>data = models d, cache = c1, copies = []\<rparr> newModels),
       bc_lastBuild = Some finished\<rparr>,
      copies (processModelImages pub fs \<lparr>data = models d, cache = c1, copies = []\<rparr> newModels))"
  using assms by (simp add: buildNextjsApp_def Let_def)

lemma hashes_known_same:
  "hashes_known c ms \<Longrightarrow> same_hashes c c' \<Longrightarrow> hashes_known c' ms"
  by (simp add: hashes_known_def same_hashes_def)

text \<open>
  The build on a catalog with distinct ids: only images change; an entry ends with an image
  in published form, or it was not new or modified and is as before; the saved cache holds
  the hash of every entry.
\<close>

lemma buildNextjsApp_distinct:
  assumes "distinct (map m_id (models d))"
    and "buildNextjsApp pub fs d savedCache clock finished = (d', bc', cps)"
  shows "length (models d') = length (models d)"
    and "\<forall>i < length (models d).
           models d' ! i = (models d ! i)\<lparr>m_image := m_image (models d' ! i)\<rparr>
         \<and> (webShaped (m_image (models d' ! i))
            \<or> (models d' ! i = models d ! i
               \<and> \<not> isNewOrModified
                     (bc_models (case savedCache of Some c \<Rightarrow> c
                                 | None \<Rightarrow> \<lparr>bc_models = Map.empty, bc_lastBuild = None\<rparr>))
                     (models d ! i)))"
    and "hashes_known (bc_models bc') (models d)"
    and "lastUpdated d' = lastUpdated d" "totalCount d' = totalCount d"
proof -
  let ?old = "bc_models (case savedCache of Some c \<Rightarrow> c
                         | None \<Rightarrow> \<lparr>bc_models = Map.empty, bc_lastBuild = None\<rparr>)"
  from categorizeModels_distinct[OF assms(1), of clock ?old]
  obtain newModels unchangedModels c1 where
    cat: "categorizeModels clock (models d) ?old = (newModels, unchangedModels, c1)"
    and nw: "\<forall>j \<in> set newModels. j < length (models d) \<and> isNewOrModified ?old (models d ! j)"
    and all: "\<forall>j < length (models d). isNewOrModified ?old (models d ! j) \<longrightarrow> j \<in> set newModels"
    and h: "hashes_known c1 (models d)"
    by blast
  let ?init = "\<lparr>data = models d, cache = c1, copies = []\<rparr>"
  let ?st = "processModelImages pub fs ?init newModels"
  from assms(2) have res: "d' = d\<lparr>models := data ?st\<rparr>"
    "bc' = \<lparr>bc_models = cache ?st, bc_lastBuild = Some finished\<rparr>" "cps = copies ?st"
    unfolding buildNextjsApp_eq[OF cat] by simp_all
  have "distinct (map m_id (data ?init))" "\<forall>j \<in> set newModels. j < length (data ?init)"
    using assms(1) nw by simp_all
  from processModelImages_distinct[OF this, of pub fs]
  have oic: "only_images_changed (models d) (set newModels) (data ?st)"
    and sh: "same_hashes c1 (cache ?st)"
    by simp_all
  show "length (models d') = length (models d)"
    using oic by (simp add: res only_images_changed_def)
  show "\<forall>i < length (models d).
           models d' ! i = (models d ! i)\<lparr>m_image := m_image (models d' ! i)\<rparr>
         \<and> (webShaped (m_image (models d' ! i))
            \<or> (models d' ! i = models d ! i \<and> \<not> isNewOrModified ?old (models d ! i)))"
  proof (intro allI impI)
    fix i assume i: "i < length (models d)"
    show "models d' ! i = (models d ! i)\<lparr>m_image := m_image (models d' ! i)\<rparr>
         \<and> (webShaped (m_image (models d' ! i))
            \<or> (models d' ! i = models d ! i \<and> \<not> isNewOrModified ?old (models d ! i)))"
    proof (cases "i \<in> set newModels")
      case True
      with oic i show ?thesis by (simp add: res only_images_changed_def)
    next
      case False
      with all i have "\<not> isNewOrModified ?old (models d ! i)" by blast
      with oic i False show ?thesis by (simp add: res only_images_changed_def)
    qed
  qed
  show "hashes_known (bc_models bc') (models d)"
    using hashes_known_same[OF h sh] by (simp add: res)
  show "lastUpdated d' = lastUpdated d" "totalCount d' = totalCount d"
    by (simp_all add: res)
qed


text \<open>
  When the cache holds the hash of every entry and every image is absent or in published
  form, the build changes no entry and copies nothing.
\<close>

lemma buildNextjsApp_settled:
  assumes "distinct (map m_id (models d))"
    and "hashes_known (bc_models bc) (models d)"
    and "\<forall>m \<in> set (models d). webShaped (m_image m) \<or> m_image m = None"
  shows "fst (buildNextjsApp pub fs d (Some bc) clock finished) = d"
    and "snd (snd (buildNextjsApp pub fs d (Some bc) clock finished)) = []"
proof -
  obtain newModels unchangedModels c1 where
    cat: "categorizeModels clock (models d) (bc_models bc) = (newModels, unchangedModels, c1)"
    and nw: "\<forall>j \<in> set newModels. j < length (models d)
                \<and> isNewOrModified (bc_models bc) (models d ! j)"
    by (rule categorizeModels_distinct[OF assms(1), of clock "bc_models bc"])
  let ?init = "\<lparr>data = models d, cache = c1, copies = []\<rparr>"
  have "\<forall>j \<in> set newModels. j < length (data ?init) \<and> webShaped (m_image (data ?init ! j))"
  proof
    fix j assume "j \<in> set newModels"
    with nw have j: "j < length (models d)" "isNewOrModified (bc_models bc) (models d ! j)"
      by simp_all
    then have mem: "models d ! j \<in> set (models d)" by simp
    with assms(2) have "map_option c_hash (bc_models bc (m_id (models d ! j)))
                          = Some (calculateModelHash (models d ! j))"
      by (simp add: hashes_known_def)
    then obtain entry where entry: "bc_models bc (m_id (models d ! j)) = Some entry"
      "c_hash entry = calculateModelHash (models d ! j)"
      by (cases "bc_models bc (m_id (models d ! j))") auto
    from assms(3) mem
    have "webShaped (m_image (models d ! j)) \<or> m_image (models d ! j) = None" by (rule bspec)
    then have "webShaped (m_image (models d ! j))"
    proof
      assume "m_image (models d ! j) = None"
      with j(2) entry show ?thesis by (simp add: isNewOrModified_def)
    qed
    with j(1) show "j < length (data ?init) \<and> webShaped (m_image (data ?init ! j))" by simp
  qed
  then have "processModelImages pub fs ?init newModels = ?init"
    by (rule processModelImages_web)
  then show "fst (buildNextjsApp pub fs d (Some bc) clock finished) = d"
    and "snd (snd (buildNextjsApp pub fs d (Some bc) clock finished)) = []"
    using buildNextjsApp_eq[of clock d "Some bc" newModels unchangedModels c1 pub fs finished] cat
    by simp_all
qed



subsection \<open>Two extraction runs on the same source tree\<close>

lemma applyReleaseAttribute_commute:
  "applyReleaseAttribute (md\<lparr>m_dateAdded := t, m_image := v\<rparr>) a
     = (applyReleaseAttribute md a)\<lparr>m_dateAdded := t, m_image := v\<rparr>"
  by (simp add: applyReleaseAttribute_def Let_def)

lemma applyReleaseTag_commute:
  "applyReleaseTag (md\<lparr>m_dateAdded := t, m_image := v\<rparr>) tag
     = (applyReleaseTag md tag)\<lparr>m_dateAdded := t, m_image := v\<rparr>"
  by (simp add: applyReleaseTag_def)

lemma foldl_attr_commute:
  "foldl applyReleaseAttribute (md\<lparr>m_dateAdded := t, m_image := v\<rparr>) as
     = (foldl applyReleaseAttribute md as)\<lparr>m_dateAdded := t, m_image := v\<rparr>"
  by (induction as arbitrary: md) (simp_all add: applyReleaseAttribute_commute)

lemma foldl_tag_commute:
  "foldl applyReleaseTag (md\<lparr>m_dateAdded := t, m_image := v\<rparr>) ts
     = (foldl applyReleaseTag md ts)\<lparr>m_dateAdded := t, m_image := v\<rparr>"
  by (induction ts arbitrary: md) (simp_all add: applyReleaseTag_commute)

lemma applyReleaseConfig_commute:
  "applyReleaseConfig (md\<lparr>m_dateAdded := t, m_image := v\<rparr>) rc
     = (applyReleaseConfig md rc)\<lparr>m_dateAdded := t, m_image := v\<rparr>"
  by (simp add: applyReleaseConfig_def Let_def foldl_attr_commute foldl_tag_commute
        split: option.splits)

lemma foldl_config_commute:
  "foldl applyReleaseConfig (md\<lparr>m_dateAdded := t, m_image := v\<rparr>) rs
     = (foldl applyReleaseConfig md rs)\<lparr>m_dateAdded := t, m_image := v\<rparr>"
  by (induction rs arbitrary: md) (simp_all add: applyReleaseConfig_commute)

lemma resolveImage_truthy: "resolveImage fs modelDir cover = None \<or> truthy (resolveImage fs modelDir cover)"
  by (simp add: resolveImage_def Let_def)

lemma baseModelData_other_run:
  "baseModelData e fs ex2 now2 mm p
     = (baseModelData e fs ex1 now1 mm p)
         \<lparr>m_dateAdded := now2,
          m_image := m_image (baseModelData e fs ex2 now2 mm p)\<rparr>"
  by (simp add: baseModelData_def)

lemma built_related:
  "extract_related ex1 ex2
     (foldl applyReleaseConfig (baseModelData e fs ex1 now1 mm p) rs)
     (foldl applyReleaseConfig (baseModelData e fs ex2 now2 mm p) rs)"
proof -
  let ?a = "foldl applyReleaseConfig (baseModelData e fs ex1 now1 mm p) rs"
  let ?b = "foldl applyReleaseConfig (baseModelData e fs ex2 now2 mm p) rs"
  have "?b = ?a\<lparr>m_dateAdded := now2, m_image := m_image (baseModelData e fs ex2 now2 mm p)\<rparr>"
    by (subst baseModelData_other_run[of e fs ex2 now2 mm p ex1 now1])
       (simp only: foldl_config_commute)
  moreover have "m_dateAdded ?b = now2"
    "m_image ?b = m_image (baseModelData e fs ex2 now2 mm p)"
    by (simp_all add: foldl_config_frame baseModelData_fields)
  ultimately have eq: "?b = ?a\<lparr>m_dateAdded := m_dateAdded ?b, m_image := m_image ?b\<rparr>"
    by simp
  have "m_id ?a = stableId (resolvedName e mm p) (relativeToRoot e p)"
    by (simp add: foldl_config_frame baseModelData_fields)
  then have img:
    "m_image ?a = (case preservedImage ex1 (m_id ?a) of Some i \<Rightarrow> Some i
                   | None \<Rightarrow> resolveImage fs (dirname p) (mm_cover mm))"
    "m_image ?b = (case preservedImage ex2 (m_id ?a) of Some i \<Rightarrow> Some i
                   | None \<Rightarrow> resolveImage fs (dirname p) (mm_cover mm))"
    by (simp_all add: foldl_config_frame baseModelData_fields)
  show ?thesis
    unfolding extract_related_def
    using eq img resolveImage_truthy[of fs "dirname p" "mm_cover mm"] by blast
qed

lemma processModelConfigs_related:
  "list_all2 (extract_related ex1 ex2)
     (sp_models (processModelConfigs e src ex1 clk1 rc i cfs))
     (sp_models (processModelConfigs e src ex2 clk2 rc i cfs))"
proof (induction cfs arbitrary: i)
  case Nil
  then show ?case by simp
next
  case (Cons filePath rest)
  show ?case
  proof (cases "readConfig src filePath")
    case None
    then show ?thesis using Cons.IH by simp
  next
    case (Some config)
    show ?thesis
    proof (cases "\<not> isReleaseConfig config \<and> isValidModelConfig config \<and> filePath \<noteq> []
                  \<and> modelmeta config \<noteq> None")
      case True
      then obtain mm where mm: "modelmeta config = Some mm" by auto
      show ?thesis
        using True Some mm Cons.IH[of "Suc i"] built_related
        by (simp add: processModelConfig_eq)
    next
      case False
      then show ?thesis
        using Some Cons.IH[of "Suc i"]
        by (auto simp: processModelConfig_eq split: option.splits)
    qed
  qed
qed

lemma extract_related_runs:
  "list_all2 (extract_related (loadExistingDataFile prior1) (loadExistingDataFile prior2))
     (models (mainExtractModelData e src prior1 clk1 fin1))
     (models (mainExtractModelData e src prior2 clk2 fin2))"
  by (simp add: mainExtractModelData_def Let_def processModelConfigs_related)

subsection \<open>The map of prior images\<close>

lemma loadExisting_fold:
  assumes "distinct (map m_id ms)"
  shows "(\<forall>m \<in> set ms.
           foldl (\<lambda>existingModels model.
                   if m_id model \<noteq> [] \<and> truthy (m_image model)
                   then existingModels(m_id model := m_image model)
                   else existingModels) acc ms (m_id m)
           = (if m_id m \<noteq> [] \<and> truthy (m_image m) then m_image m else acc (m_id m)))
       \<and> (\<forall>x. x \<notin> m_id ` set ms \<longrightarrow>
           foldl (\<lambda>existingModels model.
                   if m_id model \<noteq> [] \<and> truthy (m_image model)
                   then existingModels(m_id model := m_image model)
                   else existingModels) acc ms x = acc x)"
  using assms
proof (induction ms arbitrary: acc)
  case Nil
  then show ?case by simp
next
  case (Cons m ms)
  let ?f = "\<lambda>existingModels model.
                   if m_id model \<noteq> [] \<and> truthy (m_image model)
                   then existingModels(m_id model := m_image model)
                   else existingModels"
  from Cons.prems have d: "distinct (map m_id ms)" and fresh: "m_id m \<notin> m_id ` set ms"
    by simp_all
  note IH = Cons.IH[OF d, of "?f acc m"]
  show ?case
  proof (intro conjI ballI allI impI)
    fix m' assume "m' \<in> set (m # ms)"
    then consider "m' = m" | "m' \<in> set ms" by auto
    then show "foldl ?f acc (m # ms) (m_id m')
                 = (if m_id m' \<noteq> [] \<and> truthy (m_image m') then m_image m' else acc (m_id m'))"
    proof cases
      case 1
      then show ?thesis using IH fresh by simp
    next
      case 2
      with fresh have "m_id m' \<noteq> m_id m" by (metis imageI)
      with 2 IH show ?thesis by simp
    qed
  next
    fix x assume "x \<notin> m_id ` set (m # ms)"
    then show "foldl ?f acc (m # ms) x = acc x"
      using IH by simp
  qed
qed

lemma loadExisting_distinct:
  assumes "distinct (map m_id (models d))" "m \<in> set (models d)" "m_id m \<noteq> []"
  shows "loadExistingDataFile (Some d) (m_id m) = (if truthy (m_image m) then m_image m else None)"
  using loadExisting_fold[OF assms(1), of Map.empty] assms(2,3)
  by (simp add: loadExistingDataFile_def)

subsection \<open>The hash ignores the image and the date\<close>

lemma calculateModelHash_ignores:
  "calculateModelHash (m\<lparr>m_dateAdded := t, m_image := v\<rparr>) = calculateModelHash m"
  "calculateModelHash (m\<lparr>m_image := v\<rparr>) = calculateModelHash m"
  "calculateModelHash (m\<lparr>m_dateAdded := t\<rparr>) = calculateModelHash m"
  by (simp_all add: calculateModelHash_def hashSource_def)


section \<open>Properties\<close>

subsection \<open>Classification of configuration documents\<close>

lemma isReleaseConfig_iff:
  "isReleaseConfig config \<longleftrightarrow> modelmeta config \<noteq> None \<and> releaseTest config"
  by (auto simp: isReleaseConfig_def releaseTest_def list_ex_iff split: option.splits)

text \<open>
  Claim C5, as stated, fails: a document whose \<^verbatim>\<open>include\<close> list has a
  \<^verbatim>\<open>release\<close> entry but which has no \<^verbatim>\<open>modelmeta\<close> section passes the release
  test of the claim and is not classified Release; it is ignored.
\<close>

theorem C5_counterexample:
  "releaseTest ex_release_only \<and> classify ex_release_only = Ignored"
  by (simp add: releaseTest_def classify_def isReleaseConfig_def isValidModelConfig_def
        ex_release_only_def)

lemma classify_cases:
  "classify config = Model \<longleftrightarrow> \<not> isReleaseConfig config \<and> isValidModelConfig config"
  "classify config = Ignored \<longleftrightarrow> \<not> isReleaseConfig config \<and> \<not> isValidModelConfig config"
  by (simp_all add: classify_def)

lemma isValidModelConfig_iff:
  "isValidModelConfig config
     \<longleftrightarrow> (\<exists>mm. modelmeta config = Some mm \<and> (mm_name mm \<noteq> NameNull \<or> truthy (mm_cover mm)))"
  by (simp add: isValidModelConfig_def split: option.splits)

text \<open>
  Claim C5, amended: a document is classified Release if and only if it has a
  \<^verbatim>\<open>modelmeta\<close> section and its \<^verbatim>\<open>include\<close> list exists and contains an entry
  whose key is \<^verbatim>\<open>release\<close> or \<^verbatim>\<open>subscription\<close>. The test comes before the model
  test, so such a document is Release even when it has a name. A document is Ignored
  exactly when it fails both tests: it is not Release, and it has no \<^verbatim>\<open>modelmeta\<close>
  section or its name is \<^verbatim>\<open>null\<close> and its cover is not a non-empty string (an absent
  name is not \<^verbatim>\<open>null\<close>, and makes a model). The second pass steps over an Ignored
  document: no entry is added and neither counter moves, whereas a file that cannot be read
  or parsed, and a model whose entry cannot be built, adds one to the error counter.
\<close>

theorem C5_classification:
  "(classify config = Release \<longleftrightarrow> modelmeta config \<noteq> None \<and> releaseTest config)
   \<and> (modelmeta config = Some mm \<and> releaseTest config \<and> mm_name mm = Name n
        \<longrightarrow> classify config = Release)
   \<and> (classify config = Ignored \<longleftrightarrow>
        modelmeta config = None
        \<or> (\<not> releaseTest config
            \<and> (\<exists>m. modelmeta config = Some m \<and> mm_name m = NameNull \<and> \<not> truthy (mm_cover m))))
   \<and> (classify config = Model \<longleftrightarrow>
        \<not> releaseTest config
        \<and> (\<exists>m. modelmeta config = Some m \<and> (mm_name m \<noteq> NameNull \<or> truthy (mm_cover m))))
   \<and> (classify config = Ignored \<and> readConfig src filePath = Some config \<longrightarrow>
        processModelConfigs e src existingModels clock releaseConfigs i (filePath # rest)
        = processModelConfigs e src existingModels clock releaseConfigs (Suc i) rest)
   \<and> (readConfig src filePath = None
        \<or> (readConfig src filePath = Some config \<and> classify config = Model
            \<and> processModelConfig e (files src) existingModels (clock i) config filePath
                  (findApplicableReleaseConfigs releaseConfigs filePath) = Inl err)
        \<longrightarrow>
        processModelConfigs e src existingModels clock releaseConfigs i (filePath # rest)
        = (processModelConfigs e src existingModels clock releaseConfigs (Suc i) rest)
            \<lparr>errorCount :=
               Suc (errorCount (processModelConfigs e src existingModels clock releaseConfigs
                                  (Suc i) rest))\<rparr>)"
proof -
  have r: "classify config = Release \<longleftrightarrow> modelmeta config \<noteq> None \<and> releaseTest config"
    by (simp add: classify_def isReleaseConfig_iff)
  have n: "modelmeta config = Some mm \<and> releaseTest config \<and> mm_name mm = Name n
             \<longrightarrow> classify config = Release"
    using r by simp
  have i: "classify config = Ignored \<longleftrightarrow>
        modelmeta config = None
        \<or> (\<not> releaseTest config
            \<and> (\<exists>m. modelmeta config = Some m \<and> mm_name m = NameNull \<and> \<not> truthy (mm_cover m)))"
    unfolding classify_cases isReleaseConfig_iff isValidModelConfig_iff
    by (cases "modelmeta config") auto
  have m: "classify config = Model \<longleftrightarrow>
        \<not> releaseTest config
        \<and> (\<exists>m. modelmeta config = Some m \<and> (mm_name m \<noteq> NameNull \<or> truthy (mm_cover m)))"
    unfolding classify_cases isReleaseConfig_iff isValidModelConfig_iff
    by (cases "modelmeta config") auto
  have s: "classify config = Ignored \<and> readConfig src filePath = Some config \<longrightarrow>
        processModelConfigs e src existingModels clock releaseConfigs i (filePath # rest)
        = processModelConfigs e src existingModels clock releaseConfigs (Suc i) rest"
    by (simp add: classify_cases processModelConfigs.simps Let_def)
  have x: "readConfig src filePath = None
        \<or> (readConfig src filePath = Some config \<and> classify config = Model
            \<and> processModelConfig e (files src) existingModels (clock i) config filePath
                  (findApplicableReleaseConfigs releaseConfigs filePath) = Inl err)
        \<longrightarrow>
        processModelConfigs e src existingModels clock releaseConfigs i (filePath # rest)
        = (processModelConfigs e src existingModels clock releaseConfigs (Suc i) rest)
            \<lparr>errorCount :=
               Suc (errorCount (processModelConfigs e src existingModels clock releaseConfigs
                                  (Suc i) rest))\<rparr>"
    by (auto simp: classify_cases processModelConfigs.simps Let_def)
  show ?thesis
    by (intro conjI) (rule r n i m s x)+
qed

theorem C5_classification_witness:
  "classify (ex_release_config\<lparr>modelmeta := Some ex_goblin_meta\<rparr>) = Release
   \<and> classify ex_empty_config = Ignored
   \<and> classify ex_nameless_config = Model
   \<and> processModelConfigs ex_env (ex_tree\<lparr>readConfig := (\<lambda>p. Some ex_empty_config)\<rparr>)
        Map.empty (\<lambda>i. ''2024-06-01T10:00:00.000Z'') [] 0 [''/data/x/config.orynt3d'']
      = \<lparr>sp_models = [], successCount = 0, errorCount = 0\<rparr>
   \<and> processModelConfigs ex_env (ex_tree\<lparr>readConfig := (\<lambda>p. None)\<rparr>)
        Map.empty (\<lambda>i. ''2024-06-01T10:00:00.000Z'') [] 0 [''/data/x/config.orynt3d'']
      = \<lparr>sp_models = [], successCount = 0, errorCount = 1\<rparr>
   \<and> processModelConfigs ex_env (ex_tree\<lparr>readConfig := (\<lambda>p. Some ex_nameless_config)\<rparr>)
        Map.empty (\<lambda>i. ''2024-06-01T10:00:00.000Z'') [] 0 [[]]
      = \<lparr>sp_models = [], successCount = 0, errorCount = 1\<rparr>"
proof -
  let ?rel = "ex_release_config\<lparr>modelmeta := Some ex_goblin_meta\<rparr>"
  let ?ign = "ex_tree\<lparr>readConfig := (\<lambda>p. Some ex_empty_config)\<rparr>"
  let ?bad = "ex_tree\<lparr>readConfig := (\<lambda>p. None)\<rparr>"
  let ?thr = "ex_tree\<lparr>readConfig := (\<lambda>p. Some ex_nameless_config)\<rparr>"
  let ?clk = "\<lambda>i::nat. ''2024-06-01T10:00:00.000Z''"
  let ?f = "''/data/x/config.orynt3d''"
  have r: "releaseTest ?rel" by (simp add: releaseTest_def ex_release_config_def)
  have m: "modelmeta ?rel = Some ex_goblin_meta" "mm_name ex_goblin_meta = Name ''Goblin''"
    by (simp_all add: ex_goblin_meta_def)
  have e: "\<not> releaseTest ex_empty_config"
    "modelmeta ex_empty_config
       = Some \<lparr>mm_name = NameNull, mm_notes = None, mm_tags = None,
               mm_collections = None, mm_attributes = None, mm_cover = None\<rparr>"
    by (simp_all add: releaseTest_def ex_empty_config_def)
  have a: "\<not> releaseTest ex_nameless_config"
    "modelmeta ex_nameless_config
       = Some \<lparr>mm_name = NameAbsent, mm_notes = None, mm_tags = None,
               mm_collections = None, mm_attributes = None, mm_cover = None\<rparr>"
    by (simp_all add: releaseTest_def ex_nameless_config_def)
  have rd: "readConfig ?ign ?f = Some ex_empty_config" "readConfig ?bad ?f = None"
    by simp_all
  note T1 = C5_classification[of ?rel ex_goblin_meta "''Goblin''"]
  note T2 = C5_classification[of ex_empty_config _ _ ?ign ?f ex_env Map.empty ?clk "[]" 0 "[]"]
  note T3 = C5_classification[of ex_nameless_config]
  note T4 = C5_classification[of _ _ _ ?bad ?f ex_env Map.empty ?clk "[]" 0 "[]"]
  note T5 = C5_classification[of ex_nameless_config _ _ ?thr "[]" ex_env Map.empty ?clk "[]" 0
              "[]" ConfigPathUndefined]
  from T1 r m have c1: "classify ?rel = Release" by blast
  from T2 e have c2: "classify ex_empty_config = Ignored" by simp
  from T3 a have c3: "classify ex_nameless_config = Model" by simp
  from T2 c2 rd(1)
  have "processModelConfigs ex_env ?ign Map.empty ?clk [] 0 [?f]
          = processModelConfigs ex_env ?ign Map.empty ?clk [] (Suc 0) []"
    by blast
  then have c4: "processModelConfigs ex_env ?ign Map.empty ?clk [] 0 [?f]
          = \<lparr>sp_models = [], successCount = 0, errorCount = 0\<rparr>"
    by simp
  from T4 rd(2)
  have "processModelConfigs ex_env ?bad Map.empty ?clk [] 0 [?f]
          = (processModelConfigs ex_env ?bad Map.empty ?clk [] (Suc 0) [])
              \<lparr>errorCount := Suc (errorCount (processModelConfigs ex_env ?bad Map.empty ?clk []
                                                 (Suc 0) []))\<rparr>"
    by blast
  then have c5: "processModelConfigs ex_env ?bad Map.empty ?clk [] 0 [?f]
          = \<lparr>sp_models = [], successCount = 0, errorCount = 1\<rparr>"
    by simp
  have thr: "readConfig ?thr [] = Some ex_nameless_config"
    "processModelConfig ex_env (files ?thr) Map.empty (?clk 0) ex_nameless_config []
       (findApplicableReleaseConfigs [] []) = Inl ConfigPathUndefined"
    by (simp_all add: processModelConfig_def)
  from T5 c3 thr
  have "processModelConfigs ex_env ?thr Map.empty ?clk [] 0 [[]]
          = (processModelConfigs ex_env ?thr Map.empty ?clk [] (Suc 0) [])
              \<lparr>errorCount := Suc (errorCount (processModelConfigs ex_env ?thr Map.empty ?clk []
                                                 (Suc 0) []))\<rparr>"
    by blast
  then have c6: "processModelConfigs ex_env ?thr Map.empty ?clk [] 0 [[]]
          = \<lparr>sp_models = [], successCount = 0, errorCount = 1\<rparr>"
    by simp
  from c1 c2 c3 c4 c5 c6 show ?thesis by (intro conjI)
qed

subsection \<open>Merging release configs into an entry\<close>

text \<open>
  Claim C4: the attributes of the built entry are the model's own attributes, unchanged and
  in front, followed only by release attributes whose key no own attribute has; so an own
  attribute, the one with key \<^verbatim>\<open>release\<close> included, is neither overwritten nor
  doubled. The tags are the own tags followed by release tags that are not own tags, none of
  them twice: the union of the own tags and the release tags.
\<close>

theorem C4_release_merge_precedence:
  assumes "processModelConfig e fs existingModels now modelConfig configPath releaseConfigs
             = Inr md"
    and "modelmeta modelConfig = Some mm"
  shows "\<exists>extraAttributes extraTags.
           m_attributes md = own_attributes mm @ extraAttributes
         \<and> (\<forall>a \<in> set extraAttributes. a_key a \<notin> a_key ` set (own_attributes mm))
         \<and> m_tags md = own_tags mm @ extraTags
         \<and> set extraTags \<inter> set (own_tags mm) = {}
         \<and> distinct extraTags
         \<and> set (m_tags md)
             = set (own_tags mm) \<union> (\<Union>rc \<in> set releaseConfigs. set (release_tags rc))"
proof -
  from assms have md: "md = foldl applyReleaseConfig
                              (baseModelData e fs existingModels now mm configPath) releaseConfigs"
    by (auto elim: processModelConfig_InrD)
  have "attrs_extend (own_attributes mm)
          (m_attributes (baseModelData e fs existingModels now mm configPath))"
    by (simp add: attrs_extend_def baseModelData_fields)
  then have a: "attrs_extend (own_attributes mm) (m_attributes md)"
    unfolding md by (rule foldl_config_extend)
  have "tags_extend (own_tags mm) (m_tags (baseModelData e fs existingModels now mm configPath))"
    by (simp add: tags_extend_def baseModelData_fields)
  then have t: "tags_extend (own_tags mm) (m_tags md)"
    unfolding md by (rule foldl_config_extend)
  have u: "set (m_tags md)
             = set (own_tags mm) \<union> (\<Union>rc \<in> set releaseConfigs. set (release_tags rc))"
    unfolding md by (simp add: foldl_config_tag_set baseModelData_fields)
  from a t u show ?thesis
    unfolding attrs_extend_def tags_extend_def by blast
qed

theorem C4_release_merge_precedence_witness:
  "processModelConfig ex_env ex_files Map.empty ''2024-06-01T10:00:00.000Z'' ex_goblin_config
      ex_goblin_path [ex_release_config]
     = Inr (ex_goblin_entry ''2024-06-01T10:00:00.000Z''
              (Some ''/data/Collection1/Goblin/cover.png''))
   \<and> (\<exists>extraAttributes extraTags.
         [\<lparr>a_key = ''release'', a_value = ''Own''\<rparr>, \<lparr>a_key = ''scale'', a_value = ''32mm''\<rparr>]
           = [\<lparr>a_key = ''release'', a_value = ''Own''\<rparr>] @ extraAttributes
       \<and> (\<forall>a \<in> set extraAttributes. a_key a \<noteq> ''release'')
       \<and> [''monster'', ''fantasy'', ''winter''] = [''monster'', ''fantasy''] @ extraTags
       \<and> set extraTags \<inter> {''monster'', ''fantasy''} = {}
       \<and> distinct extraTags)"
proof -
  have h: "processModelConfig ex_env ex_files Map.empty ''2024-06-01T10:00:00.000Z''
             ex_goblin_config ex_goblin_path [ex_release_config]
           = Inr (ex_goblin_entry ''2024-06-01T10:00:00.000Z''
                    (Some ''/data/Collection1/Goblin/cover.png''))"
    by (simp add: ex_processModelConfig preservedImage_def)
  from C4_release_merge_precedence[OF h ex_goblin_modelmeta]
  show ?thesis
    using h by (simp add: ex_goblin_entry_def own_attributes_def own_tags_def ex_goblin_meta_def)
qed

subsection \<open>Stable identity\<close>

text \<open>
  Claim C8: the id is \<open>stableId\<close> of the resolved name and the path relative to the scan
  root, a function of these two strings alone (the slug of the name, a dash, eight
  hexadecimal digits of the digest of name, dash and relative path). Hence two entries
  with the same name and the same relative path have the same id, whatever the two runs
  are that produced them: other source trees, other prior catalogs, other clocks.
\<close>

theorem C8_stable_identity:
  "generateStableId e name configPath = stableId name (relativeToRoot e configPath)
   \<and> (md1 \<in> set (models (mainExtractModelData e1 src1 prior1 clk1 fin1))
      \<longrightarrow> m_id md1 = stableId (m_name md1) (m_relativeSourcePath md1))
   \<and> (md1 \<in> set (models (mainExtractModelData e1 src1 prior1 clk1 fin1))
      \<and> md2 \<in> set (models (mainExtractModelData e2 src2 prior2 clk2 fin2))
      \<and> m_name md1 = m_name md2 \<and> m_relativeSourcePath md1 = m_relativeSourcePath md2
      \<longrightarrow> m_id md1 = m_id md2)"
  by (auto simp: generateStableId_stableId dest!: extracted_id)

theorem C8_stable_identity_witness:
  "ex_goblin_entry ''2024-06-01T10:00:00.000Z'' (Some ''/data/Collection1/Goblin/cover.png'')
     \<in> set (models (mainExtractModelData ex_env ex_tree None
                      (\<lambda>i. ''2024-06-01T10:00:00.000Z'') ''2024-06-01T10:00:01.000Z''))
   \<and> ex_goblin_entry ''2025-01-01T00:00:00.000Z'' (Some ''/data/Collection1/Goblin/cover.png'')
     \<in> set (models (mainExtractModelData ex_env ex_tree2 None
                      (\<lambda>i. ''2025-01-01T00:00:00.000Z'') ''2025-01-01T00:00:01.000Z''))
   \<and> m_id (ex_goblin_entry ''2024-06-01T10:00:00.000Z''
              (Some ''/data/Collection1/Goblin/cover.png''))
     = m_id (ex_goblin_entry ''2025-01-01T00:00:00.000Z''
              (Some ''/data/Collection1/Goblin/cover.png''))"
proof -
  have a: "ex_goblin_entry ''2024-06-01T10:00:00.000Z'' (Some ''/data/Collection1/Goblin/cover.png'')
     \<in> set (models (mainExtractModelData ex_env ex_tree None
                      (\<lambda>i. ''2024-06-01T10:00:00.000Z'') ''2024-06-01T10:00:01.000Z''))"
    by (simp add: ex_extract loadExistingDataFile_def preservedImage_def)
  have b: "ex_goblin_entry ''2025-01-01T00:00:00.000Z'' (Some ''/data/Collection1/Goblin/cover.png'')
     \<in> set (models (mainExtractModelData ex_env ex_tree2 None
                      (\<lambda>i. ''2025-01-01T00:00:00.000Z'') ''2025-01-01T00:00:01.000Z''))"
    using ex_extract2[of "\<lambda>i. ''2025-01-01T00:00:00.000Z''" None "''2025-01-01T00:00:01.000Z''"]
    by (simp add: loadExistingDataFile_def preservedImage_def)
  have c: "m_name (ex_goblin_entry ''2024-06-01T10:00:00.000Z''
                     (Some ''/data/Collection1/Goblin/cover.png''))
           = m_name (ex_goblin_entry ''2025-01-01T00:00:00.000Z''
                     (Some ''/data/Collection1/Goblin/cover.png''))"
    "m_relativeSourcePath (ex_goblin_entry ''2024-06-01T10:00:00.000Z''
                     (Some ''/data/Collection1/Goblin/cover.png''))
           = m_relativeSourcePath (ex_goblin_entry ''2025-01-01T00:00:00.000Z''
                     (Some ''/data/Collection1/Goblin/cover.png''))"
    by (simp_all add: ex_goblin_entry_def)
  from C8_stable_identity[of ex_env "''Goblin''" ex_goblin_path
      "ex_goblin_entry ''2024-06-01T10:00:00.000Z'' (Some ''/data/Collection1/Goblin/cover.png'')"
      ex_env ex_tree None "\<lambda>i. ''2024-06-01T10:00:00.000Z''" "''2024-06-01T10:00:01.000Z''"
      "ex_goblin_entry ''2025-01-01T00:00:00.000Z'' (Some ''/data/Collection1/Goblin/cover.png'')"
      ex_env ex_tree2 None "\<lambda>i. ''2025-01-01T00:00:00.000Z''" "''2025-01-01T00:00:01.000Z''"]
  show ?thesis using a b c by blast
qed

subsection \<open>The image resolver\<close>

text \<open>The first element of a list, and \<open>find\<close>.\<close>

lemma find_first_of: "find P xs = first_of (filter P xs)"
  by (induction xs) (simp_all add: first_of_def)

lemma first_of_append:
  "first_of (xs @ ys) = (case first_of xs of Some x \<Rightarrow> Some x | None \<Rightarrow> first_of ys)"
  by (cases xs) (simp_all add: first_of_def)

lemma first_of_map: "first_of (map f xs) = map_option f (first_of xs)"
  by (cases xs) (simp_all add: first_of_def)

lemma first_of_None: "first_of xs = None \<longleftrightarrow> xs = []"
  by (cases xs) (simp_all add: first_of_def)

lemma filter_first:
  "\<forall>g \<in> set pre. \<not> P g \<Longrightarrow> P f \<Longrightarrow> filter P (pre @ f # post) = f # filter P post"
  by (simp add: filter_empty_conv)

text \<open>The tests of the loops are the tests the specification words.\<close>

lemma loop_tests:
  "isPng = is_png_file" "isImage = has_image_extension"
  "isFnOrPreviewPng = (\<lambda>f. is_png_file f \<and> named_fn_or_preview f)"
  by (auto simp: fun_eq_iff isPng_def isImage_def isFnOrPreviewPng_def lowerExt_def
        imageExtensions_def is_png_file_def has_image_extension_def named_fn_or_preview_def)

lemma is_png_file_image: "is_png_file f \<Longrightarrow> has_image_extension f"
  by (simp add: is_png_file_def has_image_extension_def)

text \<open>Priority 3 and priority 5 return the first of their candidates.\<close>

lemma findConfiguredCover_spec:
  "findConfiguredCover fs modelDir cover = first_of (cover_candidates fs modelDir cover)"
proof (cases cover)
  case None
  then show ?thesis by (simp add: findConfiguredCover_def cover_candidates_def first_of_def)
next
  case (Some c)
  have ext: "first_of (filter (existsSync fs) (map (\<lambda>ext. join modelDir (c @ ext)) exts))
               = map_option (\<lambda>ext. join modelDir (c @ ext))
                   (find (\<lambda>ext. existsSync fs (join modelDir (c @ ext))) exts)" for exts
    by (simp add: filter_map first_of_map find_first_of comp_def)
  show ?thesis
  proof (cases "c = [] \<or> existsSync fs (join modelDir c)")
    case True
    with Some show ?thesis
      by (auto simp: findConfiguredCover_def cover_candidates_def first_of_def)
  next
    case False
    with Some show ?thesis
      using ext[of "[''.png'', ''.jpg'', ''.jpeg'', ''.webp'', ''.gif'']"]
      by (simp add: findConfiguredCover_def cover_candidates_def imageExtensions_def
            first_of_def)
  qed
qed

lemma findInImageDirs_spec:
  "findInImageDirs fs modelDir dirs = first_of (child_candidates fs modelDir dirs)"
proof (induction dirs)
  case Nil
  then show ?case by (simp add: child_candidates_def first_of_def)
next
  case (Cons d rest)
  have split: "child_candidates fs modelDir (d # rest)
                 = map (join (join modelDir d))
                     (filter has_image_extension (entries_of fs (join modelDir d)))
                   @ child_candidates fs modelDir rest"
    by (simp add: child_candidates_def)
  show ?case
  proof (cases "fs (join modelDir d)")
    case None
    then show ?thesis
      unfolding split first_of_append
      by (simp add: Cons.IH Let_def fs_eval entries_of_def first_of_def)
  next
    case (Some n)
    show ?thesis
    proof (cases n)
      case File
      with Some show ?thesis
        unfolding split first_of_append
        by (simp add: Cons.IH Let_def fs_eval entries_of_def first_of_def)
    next
      case (Dir names)
      with Some have "findInImageDirs fs modelDir (d # rest)
          = (case find isImage names of
               Some file \<Rightarrow> Some (join (join modelDir d) file)
             | None \<Rightarrow> findInImageDirs fs modelDir rest)"
        by (simp add: Let_def fs_eval)
      also have "\<dots> = (case first_of (map (join (join modelDir d))
                                     (filter has_image_extension names)) of
                         Some x \<Rightarrow> Some x
                       | None \<Rightarrow> first_of (child_candidates fs modelDir rest))"
        by (simp add: Cons.IH loop_tests find_first_of first_of_map split: option.splits)
      finally show ?thesis
        unfolding split first_of_append using Some Dir by (simp add: entries_of_def)
    qed
  qed
qed

lemma child_candidates_empty:
  "child_candidates fs modelDir dirs = []
     \<longleftrightarrow> (\<forall>d \<in> set dirs. \<forall>f \<in> set (entries_of fs (join modelDir d)). \<not> has_image_extension f)"
  by (auto simp: child_candidates_def filter_empty_conv)

lemma findCoverImage_spec:
  assumes "(if existsSync fs modelDir then readdirSync fs modelDir else Some []) = Some fileNames"
  shows "findCoverImage fs modelDir cover = first_of (image_candidates fs modelDir fileNames cover)"
  using assms
  by (simp add: findCoverImage_def image_candidates_def imageDirs_def first_of_append
        first_of_map find_first_of loop_tests findConfiguredCover_spec findInImageDirs_spec
      split: option.splits)

text \<open>
  Claim C7: with the entries of the model directory listed (or the directory absent, which
  counts as no entries), the resolver returns the first of the candidates in the order of
  the specification: the PNGs of the model directory whose lower-cased name starts with
  \<^verbatim>\<open>fn\<close> or contains \<^verbatim>\<open>preview\<close>, then all its PNGs, then the configured cover as it
  is and, when it has no extension, with \<^verbatim>\<open>.png\<close>, \<^verbatim>\<open>.jpg\<close>, \<^verbatim>\<open>.jpeg\<close>,
  \<^verbatim>\<open>.webp\<close>, \<^verbatim>\<open>.gif\<close> appended, as far as these paths exist, then the entries of
  the model directory with an image extension, then the entries with an image extension of
  the child directories \<^verbatim>\<open>images\<close>, \<^verbatim>\<open>thumbnails\<close>, \<^verbatim>\<open>preview\<close>, \<^verbatim>\<open>previews\<close>.
  In particular an image in a child directory is found when nothing before it matches: the
  result is the first image of the first child directory that has one. The result is
  \<^verbatim>\<open>null\<close> exactly when there is no candidate at all. A directory holding only
  \<^verbatim>\<open>thumbnail.jpg\<close>, with no configured cover, gives that file.
\<close>

theorem C7_image_priority:
  assumes "(if existsSync fs modelDir then readdirSync fs modelDir else Some []) = Some fileNames"
  shows "findCoverImage fs modelDir cover = first_of (image_candidates fs modelDir fileNames cover)
       \<and> ((\<forall>g \<in> set fileNames. \<not> has_image_extension g)
            \<and> cover_candidates fs modelDir cover = []
            \<and> [''images'', ''thumbnails'', ''preview'', ''previews''] = before @ d # after
            \<and> (\<forall>d' \<in> set before. \<forall>g \<in> set (entries_of fs (join modelDir d')).
                  \<not> has_image_extension g)
            \<and> entries_of fs (join modelDir d) = pre @ f # post
            \<and> (\<forall>g \<in> set pre. \<not> has_image_extension g) \<and> has_image_extension f
            \<longrightarrow> findCoverImage fs modelDir cover = Some (join (join modelDir d) f))
       \<and> (findCoverImage fs modelDir cover = None \<longleftrightarrow>
            (\<forall>g \<in> set fileNames. \<not> has_image_extension g)
            \<and> cover_candidates fs modelDir cover = []
            \<and> (\<forall>d' \<in> set [''images'', ''thumbnails'', ''preview'', ''previews''].
                  \<forall>g \<in> set (entries_of fs (join modelDir d')). \<not> has_image_extension g))
       \<and> (fileNames = [''thumbnail.jpg''] \<and> cover = None
            \<longrightarrow> findCoverImage fs modelDir cover = Some (join modelDir ''thumbnail.jpg''))"
proof -
  note eq = findCoverImage_spec[OF assms, of cover]
  have png: "filter is_png_file fileNames = []"
    "filter (\<lambda>f. is_png_file f \<and> named_fn_or_preview f) fileNames = []"
    if "\<forall>g \<in> set fileNames. \<not> has_image_extension g"
    using that by (auto simp: filter_empty_conv dest: is_png_file_image)
  have child: "findCoverImage fs modelDir cover = Some (join (join modelDir d) f)"
    if none: "\<forall>g \<in> set fileNames. \<not> has_image_extension g"
      and cov: "cover_candidates fs modelDir cover = []"
      and dirs: "[''images'', ''thumbnails'', ''preview'', ''previews''] = before @ d # after"
      and bef: "\<forall>d' \<in> set before. \<forall>g \<in> set (entries_of fs (join modelDir d')).
                  \<not> has_image_extension g"
      and ent: "entries_of fs (join modelDir d) = pre @ f # post"
      and pre: "\<forall>g \<in> set pre. \<not> has_image_extension g" and f: "has_image_extension f"
  proof -
    from bef have b: "child_candidates fs modelDir before = []"
      by (simp add: child_candidates_empty)
    have "child_candidates fs modelDir (before @ d # after)
            = child_candidates fs modelDir before
              @ map (join (join modelDir d))
                  (filter has_image_extension (entries_of fs (join modelDir d)))
              @ child_candidates fs modelDir after"
      by (simp add: child_candidates_def)
    also have "\<dots> = join (join modelDir d) f
                     # map (join (join modelDir d)) (filter has_image_extension post)
                     @ child_candidates fs modelDir after"
      unfolding b ent filter_first[of pre has_image_extension f post, OF pre f] by simp
    finally have "first_of (child_candidates fs modelDir (before @ d # after))
                    = Some (join (join modelDir d) f)"
      by (simp add: first_of_def)
    with none cov show ?thesis
      unfolding eq image_candidates_def dirs[symmetric]
      by (simp add: png filter_empty_conv[THEN iffD2])
  qed
  have none_iff: "findCoverImage fs modelDir cover = None \<longleftrightarrow>
            (\<forall>g \<in> set fileNames. \<not> has_image_extension g)
            \<and> cover_candidates fs modelDir cover = []
            \<and> (\<forall>d' \<in> set [''images'', ''thumbnails'', ''preview'', ''previews''].
                  \<forall>g \<in> set (entries_of fs (join modelDir d')). \<not> has_image_extension g)"
    unfolding eq first_of_None image_candidates_def
    using child_candidates_empty[of fs modelDir "[''images'', ''thumbnails'', ''preview'', ''previews'']"]
    by (auto simp: filter_empty_conv dest: is_png_file_image)
  have thumb: "\<not> is_png_file ''thumbnail.jpg''" "has_image_extension ''thumbnail.jpg''"
    by (simp_all add: is_png_file_def has_image_extension_def extname_def basename_def str_eval)
  have t: "fileNames = [''thumbnail.jpg''] \<and> cover = None
            \<longrightarrow> findCoverImage fs modelDir cover = Some (join modelDir ''thumbnail.jpg'')"
    unfolding eq image_candidates_def
    by (simp add: thumb cover_candidates_def first_of_def)
  have c: "(\<forall>g \<in> set fileNames. \<not> has_image_extension g)
            \<and> cover_candidates fs modelDir cover = []
            \<and> [''images'', ''thumbnails'', ''preview'', ''previews''] = before @ d # after
            \<and> (\<forall>d' \<in> set before. \<forall>g \<in> set (entries_of fs (join modelDir d')).
                  \<not> has_image_extension g)
            \<and> entries_of fs (join modelDir d) = pre @ f # post
            \<and> (\<forall>g \<in> set pre. \<not> has_image_extension g) \<and> has_image_extension f
            \<longrightarrow> findCoverImage fs modelDir cover = Some (join (join modelDir d) f)"
    by (intro impI, elim conjE, rule child)
  from eq c none_iff t show ?thesis by (intro conjI)
qed

theorem C7_image_priority_witness:
  "findCoverImage ex_thumbnail_files ''/data/Orc'' None = Some ''/data/Orc/thumbnail.jpg''
   \<and> findCoverImage ex_fn_files ''/data/Orc'' (Some ''cover.png'') = Some ''/data/Orc/FN_orc.PNG''
   \<and> findCoverImage ex_png_files ''/data/Orc'' (Some ''a.jpg'') = Some ''/data/Orc/b.png''
   \<and> findCoverImage ex_cover_files ''/data/Orc'' (Some ''box'') = Some ''/data/Orc/box.webp''
   \<and> findCoverImage ex_child_files ''/data/Orc'' None = Some ''/data/Orc/previews/side.JPG''
   \<and> findCoverImage Map.empty ''/data/Orc'' (Some ''cover.png'') = None"
proof -
  have a: "(if existsSync ex_thumbnail_files ''/data/Orc''
            then readdirSync ex_thumbnail_files ''/data/Orc'' else Some [])
           = Some [''thumbnail.jpg'']"
    by (simp add: ex_thumbnail_files_def fs_eval)
  have b: "(if existsSync ex_fn_files ''/data/Orc''
            then readdirSync ex_fn_files ''/data/Orc'' else Some [])
           = Some [''notes.txt'', ''cover.png'', ''FN_orc.PNG'']"
    by (simp add: ex_fn_files_def fs_eval)
  have p: "(if existsSync ex_png_files ''/data/Orc''
            then readdirSync ex_png_files ''/data/Orc'' else Some [])
           = Some [''a.jpg'', ''b.png'']"
    by (simp add: ex_png_files_def fs_eval)
  have c: "(if existsSync ex_cover_files ''/data/Orc''
            then readdirSync ex_cover_files ''/data/Orc'' else Some [])
           = Some [''art.gif'', ''box.webp'']"
    by (simp add: ex_cover_files_def fs_eval)
  have d: "(if existsSync ex_child_files ''/data/Orc''
            then readdirSync ex_child_files ''/data/Orc'' else Some [])
           = Some [''notes.txt'', ''images'', ''previews'']"
    by (simp add: ex_child_files_def fs_eval)
  have e: "(if existsSync Map.empty ''/data/Orc''
            then readdirSync Map.empty ''/data/Orc'' else Some [])
           = Some []"
    by (simp add: fs_eval)
  have ext: "toLowerCase (extname ''thumbnail.jpg'') = ''.jpg''"
    "toLowerCase (extname ''notes.txt'') = ''.txt''"
    "toLowerCase (extname ''cover.png'') = ''.png''"
    "toLowerCase (extname ''FN_orc.PNG'') = ''.png''"
    "toLowerCase (extname ''art.gif'') = ''.gif''"
    "toLowerCase (extname ''a.jpg'') = ''.jpg''"
    "toLowerCase (extname ''b.png'') = ''.png''"
    "toLowerCase (extname ''box.webp'') = ''.webp''"
    "toLowerCase (extname ''images'') = []"
    "toLowerCase (extname ''previews'') = []"
    "toLowerCase (extname ''readme.md'') = ''.md''"
    "toLowerCase (extname ''list.txt'') = ''.txt''"
    "toLowerCase (extname ''side.JPG'') = ''.jpg''"
    "toLowerCase (extname ''top.gif'') = ''.gif''"
    "extname ''box'' = []" "extname ''cover.png'' = ''.png''"
    by (simp_all add: extname_def basename_def str_eval)
  have nm: "\<not> named_fn_or_preview ''cover.png''" "named_fn_or_preview ''FN_orc.PNG''"
    "\<not> named_fn_or_preview ''b.png''"
    by (simp_all add: named_fn_or_preview_def str_eval)
  have j: "join ''/data/Orc'' ''thumbnail.jpg'' = ''/data/Orc/thumbnail.jpg''"
    "join ''/data/Orc'' ''FN_orc.PNG'' = ''/data/Orc/FN_orc.PNG''"
    "join ''/data/Orc'' ''cover.png'' = ''/data/Orc/cover.png''"
    "join ''/data/Orc'' ''box'' = ''/data/Orc/box''"
    "join ''/data/Orc'' ''box.png'' = ''/data/Orc/box.png''"
    "join ''/data/Orc'' ''box.jpg'' = ''/data/Orc/box.jpg''"
    "join ''/data/Orc'' ''box.jpeg'' = ''/data/Orc/box.jpeg''"
    "join ''/data/Orc'' ''box.webp'' = ''/data/Orc/box.webp''"
    "join ''/data/Orc'' ''box.gif'' = ''/data/Orc/box.gif''"
    "join ''/data/Orc'' ''art.gif'' = ''/data/Orc/art.gif''"
    "join ''/data/Orc'' ''b.png'' = ''/data/Orc/b.png''"
    "join ''/data/Orc'' ''images'' = ''/data/Orc/images''"
    "join ''/data/Orc'' ''thumbnails'' = ''/data/Orc/thumbnails''"
    "join ''/data/Orc'' ''preview'' = ''/data/Orc/preview''"
    "join ''/data/Orc'' ''previews'' = ''/data/Orc/previews''"
    "join ''/data/Orc/previews'' ''side.JPG'' = ''/data/Orc/previews/side.JPG''"
    "join ''/data/Orc/previews'' ''top.gif'' = ''/data/Orc/previews/top.gif''"
    by (simp_all add: path_eval)
  have ca: "image_candidates ex_thumbnail_files ''/data/Orc'' [''thumbnail.jpg''] None
              = [''/data/Orc/thumbnail.jpg'']"
    by (simp add: image_candidates_def child_candidates_def cover_candidates_def entries_of_def
          is_png_file_def has_image_extension_def ext j ex_thumbnail_files_def)
  have cb: "first_of (image_candidates ex_fn_files ''/data/Orc''
                        [''notes.txt'', ''cover.png'', ''FN_orc.PNG''] (Some ''cover.png''))
              = Some ''/data/Orc/FN_orc.PNG''"
    by (simp add: image_candidates_def is_png_file_def ext nm j first_of_def)
  have cp: "first_of (image_candidates ex_png_files ''/data/Orc'' [''a.jpg'', ''b.png'']
                        (Some ''a.jpg''))
              = Some ''/data/Orc/b.png''"
    by (simp add: image_candidates_def is_png_file_def ext nm j first_of_def)
  have cc: "first_of (image_candidates ex_cover_files ''/data/Orc'' [''art.gif'', ''box.webp'']
                        (Some ''box''))
              = Some ''/data/Orc/box.webp''"
    by (simp add: image_candidates_def cover_candidates_def is_png_file_def ext j first_of_def
          existsSync_def ex_cover_files_def)
  have cd: "first_of (image_candidates ex_child_files ''/data/Orc''
                        [''notes.txt'', ''images'', ''previews''] None)
              = Some ''/data/Orc/previews/side.JPG''"
    by (simp add: image_candidates_def child_candidates_def cover_candidates_def entries_of_def
          is_png_file_def has_image_extension_def ext j first_of_def ex_child_files_def)
  have ce: "image_candidates Map.empty ''/data/Orc'' [] (Some ''cover.png'') = []"
    by (simp add: image_candidates_def child_candidates_def cover_candidates_def entries_of_def
          ext existsSync_def)
  from C7_image_priority[OF a, of None]
  have 1: "findCoverImage ex_thumbnail_files ''/data/Orc'' None = Some ''/data/Orc/thumbnail.jpg''"
    by (simp add: ca first_of_def)
  from C7_image_priority[OF b, of "Some ''cover.png''"]
  have 2: "findCoverImage ex_fn_files ''/data/Orc'' (Some ''cover.png'')
             = Some ''/data/Orc/FN_orc.PNG''"
    by (simp add: cb)
  from C7_image_priority[OF p, of "Some ''a.jpg''"]
  have 6: "findCoverImage ex_png_files ''/data/Orc'' (Some ''a.jpg'') = Some ''/data/Orc/b.png''"
    by (simp add: cp)
  from C7_image_priority[OF c, of "Some ''box''"]
  have 3: "findCoverImage ex_cover_files ''/data/Orc'' (Some ''box'') = Some ''/data/Orc/box.webp''"
    by (simp add: cc)
  from C7_image_priority[OF d, of None]
  have 4: "findCoverImage ex_child_files ''/data/Orc'' None = Some ''/data/Orc/previews/side.JPG''"
    by (simp add: cd)
  from C7_image_priority[OF e, of "Some ''cover.png''"]
  have 5: "findCoverImage Map.empty ''/data/Orc'' (Some ''cover.png'') = None"
    by (simp add: ce first_of_def)
  from 1 2 6 3 4 5 show ?thesis by (intro conjI)
qed

subsection \<open>Carrying forward from the prior catalog\<close>

lemma stableId_nonempty: "stableId name relativePath \<noteq> []"
  by (simp add: stableId_def)

lemma built_image:
  assumes "processModelConfig e fs existingModels now modelConfig configPath releaseConfigs = Inr md"
    and "modelmeta modelConfig = Some mm"
  shows "m_image md = (case preservedImage existingModels (m_id md) of
                         Some img \<Rightarrow> Some img
                       | None \<Rightarrow> resolveImage fs (dirname configPath) (mm_cover mm))"
    and "m_dateAdded md = now" and "m_id md \<noteq> []"
  using assms
  by (auto elim!: processModelConfig_InrD
        simp: foldl_config_frame baseModelData_fields stableId_nonempty)

text \<open>
  Claim C2, as stated, fails: the entry rebuilt for an id of the prior catalog gets the
  clock of the rebuild as \<^verbatim>\<open>dateAdded\<close>, and a prior image that is a source path is not
  carried forward; the image is looked up in the source tree again.
\<close>

theorem C2_counterexample:
  "processModelConfig ex_env ex_files (loadExistingDataFile (Some ex_prior_raw))
      ''2024-06-01T10:00:00.000Z'' ex_goblin_config ex_goblin_path [ex_release_config]
     = Inr (ex_goblin_entry ''2024-06-01T10:00:00.000Z''
              (Some ''/data/Collection1/Goblin/cover.png''))
   \<and> models ex_prior_raw
       = [ex_goblin_entry ''2024-01-01T00:00:00.000Z'' (Some ''/data/Collection1/Goblin/old.png'')]
   \<and> m_id (ex_goblin_entry ''2024-06-01T10:00:00.000Z''
              (Some ''/data/Collection1/Goblin/cover.png''))
       = m_id (ex_goblin_entry ''2024-01-01T00:00:00.000Z''
              (Some ''/data/Collection1/Goblin/old.png''))
   \<and> m_dateAdded (ex_goblin_entry ''2024-06-01T10:00:00.000Z''
              (Some ''/data/Collection1/Goblin/cover.png''))
       \<noteq> m_dateAdded (ex_goblin_entry ''2024-01-01T00:00:00.000Z''
              (Some ''/data/Collection1/Goblin/old.png''))
   \<and> m_image (ex_goblin_entry ''2024-06-01T10:00:00.000Z''
              (Some ''/data/Collection1/Goblin/cover.png''))
       \<noteq> m_image (ex_goblin_entry ''2024-01-01T00:00:00.000Z''
              (Some ''/data/Collection1/Goblin/old.png''))"
proof -
  have "preservedImage (loadExistingDataFile (Some ex_prior_raw))
          (stableId ''Goblin'' ''Collection1/Goblin/config.orynt3d'') = None"
    by (simp add: preservedImage_def loadExistingDataFile_def ex_prior_raw_def ex_goblin_entry_def
          stableId_nonempty webPath_def)
  then show ?thesis
    by (simp add: ex_processModelConfig ex_prior_raw_def) (simp add: ex_goblin_entry_def)
qed

text \<open>
  Claim C2, amended: for a model whose id also appears in the prior catalog (ids being
  unique there), the rebuild carries forward the prior entry's image when that image starts
  with \<^verbatim>\<open>/images/\<close> or \<^verbatim>\<open>http\<close>, and otherwise takes the image the resolver finds
  in the source tree; \<^verbatim>\<open>dateAdded\<close> is the clock of the rebuild.
\<close>

theorem C2_carry_forward:
  assumes "distinct (map m_id (models prior))" and "p \<in> set (models prior)"
    and "processModelConfig e fs (loadExistingDataFile (Some prior)) now modelConfig configPath
           releaseConfigs = Inr md"
    and "modelmeta modelConfig = Some mm"
    and "m_id md = m_id p"
  shows "m_dateAdded md = now
       \<and> (webShaped (m_image p) \<longrightarrow> m_image md = m_image p)
       \<and> (\<not> webShaped (m_image p)
            \<longrightarrow> m_image md = resolveImage fs (dirname configPath) (mm_cover mm))"
proof -
  note b = built_image[OF assms(3,4)]
  from b(3) assms(5) have "m_id p \<noteq> []" by simp
  from loadExisting_distinct[OF assms(1,2) this] assms(5)
  have ex: "loadExistingDataFile (Some prior) (m_id md)
              = (if truthy (m_image p) then m_image p else None)"
    by simp
  have web: "webShaped (m_image p) \<Longrightarrow> m_image md = m_image p"
  proof -
    assume w: "webShaped (m_image p)"
    then obtain img where "m_image p = Some img" "webPath img"
      by (auto simp: webShaped_def split: option.splits)
    with ex webShaped_truthy[OF w] show ?thesis
      by (simp add: b(1) preservedImage_def)
  qed
  have raw: "\<not> webShaped (m_image p) \<Longrightarrow>
             m_image md = resolveImage fs (dirname configPath) (mm_cover mm)"
  proof -
    assume "\<not> webShaped (m_image p)"
    then have "preservedImage (loadExistingDataFile (Some prior)) (m_id md) = None"
      using ex by (cases "m_image p") (auto simp: preservedImage_def webShaped_def)
    then show ?thesis by (simp add: b(1))
  qed
  from b(2) web raw show ?thesis by blast
qed

theorem C2_carry_forward_witness:
  "m_dateAdded (ex_goblin_entry ''2024-06-01T10:00:00.000Z'' (Some ex_published))
     = ''2024-06-01T10:00:00.000Z''
   \<and> m_image (ex_goblin_entry ''2024-06-01T10:00:00.000Z'' (Some ex_published))
     = m_image (ex_goblin_entry ''2024-01-01T00:00:00.000Z'' (Some ex_published))
   \<and> processModelConfig ex_env ex_files (loadExistingDataFile (Some ex_prior_published))
        ''2024-06-01T10:00:00.000Z'' ex_goblin_config ex_goblin_path [ex_release_config]
      = Inr (ex_goblin_entry ''2024-06-01T10:00:00.000Z'' (Some ex_published))"
proof -
  let ?p = "ex_goblin_entry ''2024-01-01T00:00:00.000Z'' (Some ex_published)"
  let ?md = "ex_goblin_entry ''2024-06-01T10:00:00.000Z'' (Some ex_published)"
  have w: "webPath ex_published" by (simp add: ex_published_def webPath_def)
  have d: "distinct (map m_id (models ex_prior_published))" "?p \<in> set (models ex_prior_published)"
    by (simp_all add: ex_prior_published_def)
  have "preservedImage (loadExistingDataFile (Some ex_prior_published))
          (stableId ''Goblin'' ''Collection1/Goblin/config.orynt3d'') = Some ex_published"
    using w webPath_nonempty[OF w]
    by (simp add: preservedImage_def loadExistingDataFile_def ex_prior_published_def
          ex_goblin_entry_def stableId_nonempty)
  then have r: "processModelConfig ex_env ex_files (loadExistingDataFile (Some ex_prior_published))
        ''2024-06-01T10:00:00.000Z'' ex_goblin_config ex_goblin_path [ex_release_config]
      = Inr ?md"
    by (simp add: ex_processModelConfig)
  have i: "m_id ?md = m_id ?p" "webShaped (m_image ?p)"
    using w by (simp_all add: ex_goblin_entry_def webShaped_def)
  from C2_carry_forward[OF d r ex_goblin_modelmeta i(1)] i(2) r
  show ?thesis by blast
qed


subsection \<open>A published image stays\<close>

lemma extracted_image:
  assumes "md \<in> set (models (mainExtractModelData e src existingData clock finished))"
  shows "\<exists>R. m_image md
               = (case preservedImage (loadExistingDataFile existingData) (m_id md) of
                    Some img \<Rightarrow> Some img
                  | None \<Rightarrow> R)"
    and "m_id md \<noteq> []"
  using mainExtractModelData_set[OF assms]
  by (auto simp: foldl_config_frame baseModelData_fields stableId_nonempty)

lemma pipeline_eq:
  "pipeline e pub src clk priorCatalog priorCache =
     buildNextjsApp pub (files src)
       (mainExtractModelData e src priorCatalog (clock1 clk) (t1 clk))
       priorCache (clock2 clk) (t2 clk)"
  by (simp add: pipeline_def)

text \<open>
  Claim C10: let the prior catalog, with unique ids, hold for an id an image that starts
  with \<^verbatim>\<open>/images/\<close> and is not the placeholder, or starts with \<^verbatim>\<open>http\<close>. Then in
  the next run, whatever configs and files the source tree holds, every entry extracted
  with this id has this image (also with any other files in the tree: the source tree is
  not consulted), every entry of the final catalog with this id has this image, and no file
  is copied for this id. The final catalog thus satisfies the assumption again whenever
  the id is produced.
\<close>

theorem C10_published_image_stays:
  assumes "distinct (map m_id (models prior))" and "p \<in> set (models prior)"
    and "m_id p = X" and "m_image p = Some I"
    and "(startsWith I ''/images/'' \<and> I \<noteq> placeholder) \<or> startsWith I ''http''"
    and "pipeline e pub src clk (Some prior) priorCache = (cat, bc, cps)"
  shows "(\<forall>m \<in> set (models (mainExtractModelData e (src\<lparr>files := anyFiles\<rparr>) (Some prior)
                            (clock1 clk) (t1 clk))).
            m_id m = X \<longrightarrow> m_image m = Some I)
       \<and> (\<forall>m \<in> set (models cat). m_id m = X \<longrightarrow> m_image m = Some I)
       \<and> (\<forall>c \<in> set cps. fst c \<noteq> X)"
proof -
  have w: "webPath I" using assms(5) by (auto simp: webPath_def)
  have ext: "m_image m = Some I"
    if "m \<in> set (models (mainExtractModelData e src' (Some prior) clock finished))" "m_id m = X"
    for m src' clock finished
  proof -
    from extracted_image[OF that(1)] that(2) obtain R where
      R: "m_image m = (case preservedImage (loadExistingDataFile (Some prior)) X of
                         Some img \<Rightarrow> Some img | None \<Rightarrow> R)"
      and "X \<noteq> []"
      by auto
    with loadExisting_distinct[OF assms(1,2)] assms(3,4) w webPath_nonempty[OF w]
    have "loadExistingDataFile (Some prior) X = Some I" by simp
    with w R show ?thesis by (simp add: preservedImage_def)
  qed
  let ?E = "mainExtractModelData e src (Some prior) (clock1 clk) (t1 clk)"
  let ?old = "bc_models (case priorCache of Some c \<Rightarrow> c
                          | None \<Rightarrow> \<lparr>bc_models = Map.empty, bc_lastBuild = None\<rparr>)"
  obtain newModels unchangedModels c1 where
    cat: "categorizeModels (clock2 clk) (models ?E) ?old = (newModels, unchangedModels, c1)"
    by (metis prod_cases3)
  let ?init = "\<lparr>data = models ?E, cache = c1, copies = []\<rparr>"
  let ?st = "processModelImages pub (files src) ?init newModels"
  from assms(6) have res: "models cat = data ?st" "cps = copies ?st"
    unfolding pipeline_eq buildNextjsApp_eq[OF cat] by auto
  have "keeps_image X I ?init"
    using ext[of _ src "clock1 clk" "t1 clk"] by (simp add: keeps_image_def)
  moreover have "\<forall>j \<in> set newModels. j < length (data ?init)"
    using categorizeModels_indices[OF cat] by simp
  ultimately have "keeps_image X I ?st"
    using w by (intro processModelImages_keeps_image)
  then have "\<forall>m \<in> set (models cat). m_id m = X \<longrightarrow> m_image m = Some I"
    "\<forall>c \<in> set cps. fst c \<noteq> X"
    by (simp_all add: keeps_image_def res)
  with ext[of _ "src\<lparr>files := anyFiles\<rparr>" "clock1 clk" "t1 clk"] show ?thesis by blast
qed


lemma processModelImages_ids:
  "\<forall>j \<in> set js. j < length (data st) \<Longrightarrow>
   map m_id (data (processModelImages pub fs st js)) = map m_id (data st)"
  unfolding processModelImages_def
proof (induction js arbitrary: st)
  case Nil
  then show ?case by simp
next
  case (Cons j js)
  then have j: "j < length (data st)" by simp
  have "\<forall>i \<in> set js. i < length (data (processModelImage pub fs st j))"
    using Cons.prems processModelImage_length[OF j, of pub fs] by simp
  from Cons.IH[OF this] show ?case
    by (simp add: processModelImage_ids[OF j])
qed

lemma pipeline_ids:
  "map m_id (models (fst (pipeline e pub src clk priorCatalog priorCache)))
     = map m_id (models (mainExtractModelData e src priorCatalog (clock1 clk) (t1 clk)))"
proof -
  let ?E = "mainExtractModelData e src priorCatalog (clock1 clk) (t1 clk)"
  let ?old = "bc_models (case priorCache of Some c \<Rightarrow> c
                          | None \<Rightarrow> \<lparr>bc_models = Map.empty, bc_lastBuild = None\<rparr>)"
  obtain newModels unchangedModels c1 where
    cat: "categorizeModels (clock2 clk) (models ?E) ?old = (newModels, unchangedModels, c1)"
    by (metis prod_cases3)
  have "\<forall>j \<in> set newModels. j < length (data \<lparr>data = models ?E, cache = c1, copies = []\<rparr>)"
    using categorizeModels_indices[OF cat] by simp
  from processModelImages_ids[OF this, of pub "files src"] show ?thesis
    unfolding pipeline_eq buildNextjsApp_eq[OF cat] by simp
qed

theorem C10_published_image_stays_witness:
  "distinct (map m_id (models ex_prior_published))
   \<and> map m_id (models (fst (pipeline ex_env ex_public_images ex_tree ex_clock_B
                              (Some ex_prior_published) None)))
       = [stableId ''Goblin'' ''Collection1/Goblin/config.orynt3d'']
   \<and> map m_image (models (fst (pipeline ex_env ex_public_images ex_tree ex_clock_B
                                 (Some ex_prior_published) None)))
       = [Some ex_published]
   \<and> stableId ''Goblin'' ''Collection1/Goblin/config.orynt3d''
       \<notin> fst ` set (snd (snd (pipeline ex_env ex_public_images ex_tree ex_clock_B
                                  (Some ex_prior_published) None)))"
proof -
  let ?p = "ex_goblin_entry ''2024-01-01T00:00:00.000Z'' (Some ex_published)"
  let ?R = "pipeline ex_env ex_public_images ex_tree ex_clock_B (Some ex_prior_published) None"
  let ?X = "stableId ''Goblin'' ''Collection1/Goblin/config.orynt3d''"
  have d: "distinct (map m_id (models ex_prior_published))" "?p \<in> set (models ex_prior_published)"
    by (simp_all add: ex_prior_published_def)
  have p: "m_id ?p = ?X" "m_image ?p = Some ex_published"
    by (simp_all add: ex_goblin_entry_def)
  have w: "(startsWith ex_published ''/images/'' \<and> ex_published \<noteq> placeholder)
           \<or> startsWith ex_published ''http''"
    by (simp add: ex_published_def placeholder_def)
  have r: "?R = (fst ?R, fst (snd ?R), snd (snd ?R))" by simp
  have ids: "map m_id (models (fst ?R)) = [?X]"
    by (simp add: pipeline_ids ex_extract ex_goblin_entry_def)
  then obtain m where m: "models (fst ?R) = [m]" "m_id m = ?X" by auto
  note T = C10_published_image_stays[where anyFiles = ex_files, OF d p w r]
  from T m have "m_image m = Some ex_published" by simp
  with m have img: "map m_image (models (fst ?R)) = [Some ex_published]" by simp
  from T have c: "\<forall>c \<in> set (snd (snd ?R)). fst c \<noteq> ?X"
    by (rule conjunct2[OF conjunct2])
  have "?X \<notin> fst ` set (snd (snd ?R))"
  proof
    assume "?X \<in> fst ` set (snd (snd ?R))"
    then obtain x where x: "x \<in> set (snd (snd ?R))" "?X = fst x" by (rule imageE)
    from c x(1) have "fst x \<noteq> ?X" by (rule bspec)
    with x(2) show False by simp
  qed
  with d(1) ids img show ?thesis by (intro conjI)
qed

subsection \<open>Running the pipeline twice\<close>

lemma preservedImage_web: "preservedImage ex x = Some img \<Longrightarrow> webPath img"
  by (auto simp: preservedImage_def split: option.splits if_splits)

lemma preservedImage_of_web: "ex x = Some img \<Longrightarrow> webPath img \<Longrightarrow> preservedImage ex x = Some img"
  by (simp add: preservedImage_def)

lemma raw_image_is_new:
  "m_image m = Some img \<Longrightarrow> img \<noteq> [] \<Longrightarrow> \<not> webPath img \<Longrightarrow> isNewOrModified c m"
  by (simp add: isNewOrModified_def webPath_def split: option.splits)

text \<open>
  The entry a second extraction builds, compared with the entry \<open>d\<close> that the first run
  left in the catalog for the same model: the same but for \<^verbatim>\<open>dateAdded\<close>.
\<close>

lemma second_extraction_entry:
  assumes rel: "extract_related ex1 ex2 a b"
    and d_eq: "d = a\<lparr>m_image := m_image d\<rparr>"
    and d_state: "webShaped (m_image d) \<or> (d = a \<and> \<not> isNewOrModified c0 a)"
    and ex2: "ex2 (m_id a) = (if truthy (m_image d) then m_image d else None)"
  shows "b = d\<lparr>m_dateAdded := m_dateAdded b\<rparr>"
    and "webShaped (m_image b) \<or> m_image b = None"
proof -
  from rel obtain R where
    b_eq: "b = a\<lparr>m_dateAdded := m_dateAdded b, m_image := m_image b\<rparr>"
    and R: "R = None \<or> truthy R"
    and ia: "m_image a = (case preservedImage ex1 (m_id a) of Some i \<Rightarrow> Some i | None \<Rightarrow> R)"
    and ib: "m_image b = (case preservedImage ex2 (m_id a) of Some i \<Rightarrow> Some i | None \<Rightarrow> R)"
    unfolding extract_related_def by blast
  have img: "m_image b = m_image d \<and> (webShaped (m_image b) \<or> m_image b = None)"
  proof (cases "webShaped (m_image d)")
    case True
    then obtain img where i: "m_image d = Some img" "webPath img"
      by (auto simp: webShaped_def split: option.splits)
    with ex2 webPath_nonempty[OF i(2)] have "ex2 (m_id a) = Some img" by simp
    from preservedImage_of_web[of ex2 "m_id a" img, OF this i(2)] ib i True show ?thesis by simp
  next
    case False
    with d_state have da: "d = a" and old: "\<not> isNewOrModified c0 a" by simp_all
    have none: "m_image a = None"
    proof (cases "preservedImage ex1 (m_id a)")
      case (Some i)
      with ia have "m_image a = Some i" by simp
      with preservedImage_web[OF Some] False da show ?thesis by (simp add: webShaped_def)
    next
      case None
      with ia have aR: "m_image a = R" by simp
      show ?thesis
      proof (rule ccontr)
        assume "m_image a \<noteq> None"
        with aR R obtain img where i: "m_image a = Some img" "img \<noteq> []"
          by (cases R) auto
        with False da have "\<not> webPath img" by (simp add: webShaped_def)
        from raw_image_is_new[OF i this] old show False by simp
      qed
    qed
    with da ex2 have "ex2 (m_id a) = None" by simp
    then have "preservedImage ex2 (m_id a) = None" by (simp add: preservedImage_def)
    with ib have "m_image b = R" by simp
    moreover from none ia have "R = None"
      by (cases "preservedImage ex1 (m_id a)") simp_all
    ultimately show ?thesis using none da by simp
  qed
  then show "webShaped (m_image b) \<or> m_image b = None" by (rule conjunct2)
  from img have same: "m_image b = m_image d" by (rule conjunct1)
  from d_eq obtain x where "d = a\<lparr>m_image := x\<rparr>" ..
  then have "d\<lparr>m_dateAdded := m_dateAdded b\<rparr> = a\<lparr>m_dateAdded := m_dateAdded b, m_image := m_image d\<rparr>"
    by simp
  with b_eq same show "b = d\<lparr>m_dateAdded := m_dateAdded b\<rparr>" by simp
qed

lemma extract_related_id: "extract_related ex1 ex2 a b \<Longrightarrow> m_id b = m_id a"
proof -
  assume "extract_related ex1 ex2 a b"
  then have "b = a\<lparr>m_dateAdded := m_dateAdded b, m_image := m_image b\<rparr>"
    by (simp add: extract_related_def)
  then obtain t v where "b = a\<lparr>m_dateAdded := t, m_image := v\<rparr>" ..
  then show ?thesis by simp
qed

lemma extracted_dateAdded:
  assumes "md \<in> set (models (mainExtractModelData e src existingData clock finished))"
  shows "\<exists>i. m_dateAdded md = clock i"
proof -
  from assms obtain filePath config j where
    "processModelConfig e (files src) (loadExistingDataFile existingData) (clock j) config filePath
       (findApplicableReleaseConfigs
          (analyzeConfigFiles (readConfig src) (configFiles src)) filePath) = Inr md"
    unfolding mainExtractModelData_def Let_def
    using processModelConfigs_set by fastforce
  then have "m_dateAdded md = clock j"
    by (auto elim!: processModelConfig_InrD simp: foldl_config_frame baseModelData_fields)
  then show ?thesis ..
qed


lemma forget_dateAdded_update: "forget_dateAdded (d\<lparr>m_dateAdded := t\<rparr>) = forget_dateAdded d"
  by (simp add: forget_dateAdded_def)

text \<open>
  Claim C1, amended: when the ids of the extracted models are distinct, a second run of the
  pipeline on the same source tree, on the catalog and the cache the first run has left,
  gives a catalog with the same entries in the same order, equal in every field but
  \<^verbatim>\<open>dateAdded\<close>, which is read from the clock of the second run, and the same
  \<^verbatim>\<open>totalCount\<close>; and it copies no file.
\<close>

theorem C1_idempotent_except_dateAdded:
  assumes "distinct (map m_id (models (mainExtractModelData e src prior0 (clock1 clkA) (t1 clkA))))"
    and "pipeline e pub src clkA prior0 cache0 = (cat1, bc1, cps1)"
    and "pipeline e pub src clkB (Some cat1) (Some bc1) = (cat2, bc2, cps2)"
  shows "map forget_dateAdded (models cat2) = map forget_dateAdded (models cat1)
       \<and> totalCount cat2 = totalCount cat1
       \<and> cps2 = []
       \<and> (\<forall>m \<in> set (models cat2). \<exists>i. m_dateAdded m = clock1 clkB i)"
proof -
  let ?X1 = "mainExtractModelData e src prior0 (clock1 clkA) (t1 clkA)"
  let ?X2 = "mainExtractModelData e src (Some cat1) (clock1 clkB) (t1 clkB)"
  let ?E1 = "models ?X1" and ?E2 = "models ?X2"
  let ?old = "bc_models (case cache0 of Some c \<Rightarrow> c
                          | None \<Rightarrow> \<lparr>bc_models = Map.empty, bc_lastBuild = None\<rparr>)"
  from assms(2) have build1:
    "buildNextjsApp pub (files src) ?X1 cache0 (clock2 clkA) (t2 clkA) = (cat1, bc1, cps1)"
    by (simp add: pipeline_eq)
  note B = buildNextjsApp_distinct[OF assms(1) build1]
  have len1: "length (models cat1) = length ?E1" by (rule B(1))
  have rel: "list_all2 (extract_related (loadExistingDataFile prior0)
                          (loadExistingDataFile (Some cat1))) ?E1 ?E2"
    by (rule extract_related_runs)
  then have len2: "length ?E2 = length ?E1" by (simp add: list_all2_lengthD)
  have ids1: "map m_id (models cat1) = map m_id ?E1"
  proof (rule nth_equalityI)
    show "length (map m_id (models cat1)) = length (map m_id ?E1)" using len1 by simp
    fix i assume "i < length (map m_id (models cat1))"
    then have i: "i < length ?E1" using len1 by simp
    with B(2) have "models cat1 ! i = (?E1 ! i)\<lparr>m_image := m_image (models cat1 ! i)\<rparr>"
      by simp
    then obtain x where "models cat1 ! i = (?E1 ! i)\<lparr>m_image := x\<rparr>" ..
    then have "m_id (models cat1 ! i) = m_id (?E1 ! i)" by simp
    then show "map m_id (models cat1) ! i = map m_id ?E1 ! i" using i len1 by simp
  qed
  then have dist1: "distinct (map m_id (models cat1))" using assms(1) by simp
  have entry: "?E2 ! i = (models cat1 ! i)\<lparr>m_dateAdded := m_dateAdded (?E2 ! i)\<rparr>
               \<and> (webShaped (m_image (?E2 ! i)) \<or> m_image (?E2 ! i) = None)
               \<and> m_id (?E2 ! i) = m_id (?E1 ! i)"
    if i: "i < length ?E1" for i
  proof -
    let ?a = "?E1 ! i" and ?b = "?E2 ! i" and ?d = "models cat1 ! i"
    from rel i have r: "extract_related (loadExistingDataFile prior0)
                          (loadExistingDataFile (Some cat1)) ?a ?b"
      by (simp add: list_all2_nthD)
    from B(2) i have d_eq: "?d = ?a\<lparr>m_image := m_image ?d\<rparr>"
      and d_state: "webShaped (m_image ?d) \<or> (?d = ?a \<and> \<not> isNewOrModified ?old ?a)"
      by simp_all
    from d_eq obtain x where "?d = ?a\<lparr>m_image := x\<rparr>" ..
    then have id_d: "m_id ?d = m_id ?a" by simp
    have "?a \<in> set ?E1" using i by simp
    from extracted_image(2)[OF this] have ne: "m_id ?d \<noteq> []" using id_d by simp
    have "?d \<in> set (models cat1)" using i len1 by simp
    from loadExisting_distinct[OF dist1 this ne] id_d
    have ex2: "loadExistingDataFile (Some cat1) (m_id ?a)
                 = (if truthy (m_image ?d) then m_image ?d else None)"
      by simp
    from second_extraction_entry[OF r d_eq d_state ex2] extract_related_id[OF r]
    show ?thesis by simp
  qed
  have ids2: "map m_id ?E2 = map m_id ?E1"
    by (rule nth_equalityI) (use len2 entry in simp_all)
  then have dist2: "distinct (map m_id (models ?X2))" using assms(1) by simp
  have hk: "hashes_known (bc_models bc1) (models ?X2)"
    unfolding hashes_known_def
  proof
    fix m assume "m \<in> set (models ?X2)"
    then obtain i where i: "i < length ?E1" "m = ?E2 ! i"
      using len2 by (auto simp: in_set_conv_nth)
    from entry[OF i(1)] have e: "?E2 ! i = (models cat1 ! i)\<lparr>m_dateAdded := m_dateAdded (?E2 ! i)\<rparr>"
      "m_id (?E2 ! i) = m_id (?E1 ! i)"
      by simp_all
    from B(2) i(1) have "models cat1 ! i = (?E1 ! i)\<lparr>m_image := m_image (models cat1 ! i)\<rparr>"
      by simp
    then obtain x where "models cat1 ! i = (?E1 ! i)\<lparr>m_image := x\<rparr>" ..
    with e(1) obtain t where "?E2 ! i = (?E1 ! i)\<lparr>m_dateAdded := t, m_image := x\<rparr>"
      by (metis modelData.update_convs(9) modelData.surjective modelData.update_convs(11))
    then have "calculateModelHash (?E2 ! i) = calculateModelHash (?E1 ! i)"
      by (simp add: calculateModelHash_ignores)
    moreover from B(3) i(1)
    have "map_option c_hash (bc_models bc1 (m_id (?E1 ! i))) = Some (calculateModelHash (?E1 ! i))"
      by (simp add: hashes_known_def)
    ultimately show "map_option c_hash (bc_models bc1 (m_id m)) = Some (calculateModelHash m)"
      using e(2) i(2) by simp
  qed
  have web: "\<forall>m \<in> set (models ?X2). webShaped (m_image m) \<or> m_image m = None"
  proof
    fix m assume "m \<in> set (models ?X2)"
    then obtain i where "i < length ?E1" "m = ?E2 ! i"
      using len2 by (auto simp: in_set_conv_nth)
    with entry show "webShaped (m_image m) \<or> m_image m = None" by simp
  qed
  note S = buildNextjsApp_settled[OF dist2 hk web, of pub "files src" "clock2 clkB" "t2 clkB"]
  from assms(3) S have cat2: "cat2 = ?X2" and cps2: "cps2 = []"
    by (simp_all add: pipeline_eq)
  have m: "map forget_dateAdded (models cat2) = map forget_dateAdded (models cat1)"
  proof (rule nth_equalityI)
    show "length (map forget_dateAdded (models cat2)) = length (map forget_dateAdded (models cat1))"
      using len1 len2 cat2 by simp
    fix i assume "i < length (map forget_dateAdded (models cat2))"
    then have i: "i < length ?E1" using len2 cat2 by simp
    from entry[OF this] have "?E2 ! i = (models cat1 ! i)\<lparr>m_dateAdded := m_dateAdded (?E2 ! i)\<rparr>"
      by simp
    then obtain t where "?E2 ! i = (models cat1 ! i)\<lparr>m_dateAdded := t\<rparr>" ..
    then have "forget_dateAdded (?E2 ! i) = forget_dateAdded (models cat1 ! i)"
      by (simp add: forget_dateAdded_update)
    then show "map forget_dateAdded (models cat2) ! i = map forget_dateAdded (models cat1) ! i"
      using i len1 len2 cat2 by simp
  qed
  have tc: "totalCount cat2 = totalCount cat1"
    using B(5) len2 cat2 by (simp add: mainExtractModelData_def Let_def)
  have da: "\<forall>m \<in> set (models cat2). \<exists>i. m_dateAdded m = clock1 clkB i"
    using extracted_dateAdded cat2 by blast
  from m tc cps2 da show ?thesis by blast
qed


lemma update_image_dates:
  "map m_dateAdded (xs[k := (xs ! k)\<lparr>m_image := v\<rparr>]) = map m_dateAdded xs"
proof (rule nth_equalityI)
  show "length (map m_dateAdded (xs[k := (xs ! k)\<lparr>m_image := v\<rparr>])) = length (map m_dateAdded xs)"
    by simp
next
  fix i assume "i < length (map m_dateAdded (xs[k := (xs ! k)\<lparr>m_image := v\<rparr>]))"
  then have "i < length xs" by simp
  then show "map m_dateAdded (xs[k := (xs ! k)\<lparr>m_image := v\<rparr>]) ! i = map m_dateAdded xs ! i"
    by (cases "i = k") simp_all
qed

lemma processModelImage_dates:
  assumes "j < length (data st)"
  shows "map m_dateAdded (data (processModelImage pub fs st j)) = map m_dateAdded (data st)"
  using assms
  by (cases rule: processModelImage_cases[of j st pub fs]) (simp_all add: update_image_dates)

lemma processModelImages_dates:
  "\<forall>j \<in> set js. j < length (data st) \<Longrightarrow>
   map m_dateAdded (data (processModelImages pub fs st js)) = map m_dateAdded (data st)"
  unfolding processModelImages_def
proof (induction js arbitrary: st)
  case Nil
  then show ?case by simp
next
  case (Cons j js)
  then have j: "j < length (data st)" by simp
  have "\<forall>i \<in> set js. i < length (data (processModelImage pub fs st j))"
    using Cons.prems processModelImage_length[OF j, of pub fs] by simp
  from Cons.IH[OF this] show ?case
    by (simp add: processModelImage_dates[OF j])
qed

lemma pipeline_dates:
  "map m_dateAdded (models (fst (pipeline e pub src clk priorCatalog priorCache)))
     = map m_dateAdded (models (mainExtractModelData e src priorCatalog (clock1 clk) (t1 clk)))"
proof -
  let ?E = "mainExtractModelData e src priorCatalog (clock1 clk) (t1 clk)"
  let ?old = "bc_models (case priorCache of Some c \<Rightarrow> c
                          | None \<Rightarrow> \<lparr>bc_models = Map.empty, bc_lastBuild = None\<rparr>)"
  obtain newModels unchangedModels c1 where
    cat: "categorizeModels (clock2 clk) (models ?E) ?old = (newModels, unchangedModels, c1)"
    by (metis prod_cases3)
  have "\<forall>j \<in> set newModels. j < length (data \<lparr>data = models ?E, cache = c1, copies = []\<rparr>)"
    using categorizeModels_indices[OF cat] by simp
  from processModelImages_dates[OF this, of pub "files src"] show ?thesis
    unfolding pipeline_eq buildNextjsApp_eq[OF cat] by simp
qed

text \<open>
  Claim C1, as stated, fails: on the example tree the second run gives the model another
  \<^verbatim>\<open>dateAdded\<close> than the first run did, so the two catalogs differ in a per-model
  field.
\<close>

theorem C1_counterexample:
  "map m_dateAdded (models (fst ex_run1)) = [''2024-06-01T10:00:00.000Z'']
   \<and> map m_dateAdded (models (fst ex_run2)) = [''2024-06-02T10:00:00.000Z'']
   \<and> models (fst ex_run2) \<noteq> models (fst ex_run1)"
proof -
  have a: "map m_dateAdded (models (fst ex_run1)) = [''2024-06-01T10:00:00.000Z'']"
    by (simp add: ex_run1_def pipeline_dates ex_extract ex_goblin_entry_def ex_clock_A_def)
  have b: "map m_dateAdded (models (fst ex_run2)) = [''2024-06-02T10:00:00.000Z'']"
    by (simp add: ex_run2_def pipeline_dates ex_extract ex_goblin_entry_def ex_clock_B_def)
  from a b have "map m_dateAdded (models (fst ex_run2)) \<noteq> map m_dateAdded (models (fst ex_run1))"
    by simp
  then have "models (fst ex_run2) \<noteq> models (fst ex_run1)" by auto
  with a b show ?thesis by simp
qed

text \<open>The first run on the example copies the cover image; the second copies nothing.\<close>

lemma ex_run1_copies:
  "snd (snd ex_run1)
     = [(stableId ''Goblin'' ''Collection1/Goblin/config.orynt3d'',
         ''/data/Collection1/Goblin/cover.png'',
         join ex_public_images
           (''model-'' @ stableId ''Goblin'' ''Collection1/Goblin/config.orynt3d'' @ ''-cover.png''))]"
proof -
  have E: "models (mainExtractModelData ex_env ex_tree None (clock1 ex_clock_A) (t1 ex_clock_A))
             = [ex_goblin_entry (clock1 ex_clock_A 1) (Some ''/data/Collection1/Goblin/cover.png'')]"
    by (simp add: ex_extract loadExistingDataFile_def preservedImage_def)
  have c: "categorizeModels clk [m] Map.empty
           = ([0], [],
              [m_id m \<mapsto> \<lparr>c_hash = calculateModelHash m, c_lastProcessed = clk 0,
                           c_imagePath = None\<rparr>])" for clk and m :: modelData
    by (simp add: categorizeModels_def categorizeModel_def isNewOrModified_def)
  have f: "existsSync ex_files ''/data/Collection1/Goblin/cover.png''"
    "copyFileSync_ok ex_files ''/data/Collection1/Goblin/cover.png''"
    "files ex_tree = ex_files"
    "basename ''/data/Collection1/Goblin/cover.png'' = ''cover.png''"
    by (simp_all add: ex_files_def fs_eval ex_tree_def basename_def)
  have i: "m_image (ex_goblin_entry t (Some ''/data/Collection1/Goblin/cover.png''))
             = Some ''/data/Collection1/Goblin/cover.png''"
    "m_id (ex_goblin_entry t v) = stableId ''Goblin'' ''Collection1/Goblin/config.orynt3d''" for t v
    by (simp_all add: ex_goblin_entry_def)
  show ?thesis
    unfolding ex_run1_def pipeline_eq
    by (simp add: buildNextjsApp_def E c Let_def processModelImages_def processModelImage_def
          copyImage_def f i setImage_def setCacheImagePath_def)
qed


theorem C1_idempotent_except_dateAdded_witness:
  "distinct (map m_id (models (mainExtractModelData ex_env ex_tree None
                                 (clock1 ex_clock_A) (t1 ex_clock_A))))
   \<and> length (models (fst ex_run1)) = 1
   \<and> length (snd (snd ex_run1)) = 1
   \<and> map forget_dateAdded (models (fst ex_run2)) = map forget_dateAdded (models (fst ex_run1))
   \<and> totalCount (fst ex_run2) = totalCount (fst ex_run1)
   \<and> snd (snd ex_run2) = []"
proof -
  have d: "distinct (map m_id (models (mainExtractModelData ex_env ex_tree None
                                 (clock1 ex_clock_A) (t1 ex_clock_A))))"
    by (simp add: ex_extract)
  have r1: "pipeline ex_env ex_public_images ex_tree ex_clock_A None None
              = (fst ex_run1, fst (snd ex_run1), snd (snd ex_run1))"
    by (simp add: ex_run1_def)
  have r2: "pipeline ex_env ex_public_images ex_tree ex_clock_B
              (Some (fst ex_run1)) (Some (fst (snd ex_run1)))
              = (fst ex_run2, fst (snd ex_run2), snd (snd ex_run2))"
    by (simp add: ex_run2_def)
  have "length (map m_dateAdded (models (fst ex_run1))) = 1"
    by (simp add: ex_run1_def pipeline_dates ex_extract)
  then have l: "length (models (fst ex_run1)) = 1" by simp
  from C1_idempotent_except_dateAdded[OF d r1 r2] d l ex_run1_copies
  show ?thesis by simp
qed


subsection \<open>What the build guarantees\<close>

text \<open>
  For a model that has an
  image value the test of the code is the test of the specification; with distinct ids a
  model that is not new or modified keeps its entry through the build; and after the build
  no entry has a source path as image.
\<close>

lemma isNewOrModified_with_image:
  assumes "truthy (m_image m)"
  shows "isNewOrModified c m \<longleftrightarrow> mustReprocess c m"
proof -
  from assms obtain img where img: "m_image m = Some img" "img \<noteq> []"
    by (cases "m_image m") auto
  show ?thesis
  proof (cases "c (m_id m)")
    case None
    then show ?thesis by (simp add: isNewOrModified_def mustReprocess_def)
  next
    case (Some entry)
    then show ?thesis
      using img
      by (auto simp: isNewOrModified_def mustReprocess_def webShaped_def webPath_def)
  qed
qed

lemma isNewOrModified_without_image:
  assumes "\<not> truthy (m_image m)"
  shows "isNewOrModified c m \<longleftrightarrow>
           map_option c_hash (c (m_id m)) \<noteq> Some (calculateModelHash m)"
proof -
  from assms have "m_image m = None \<or> m_image m = Some []"
    by (cases "m_image m") auto
  then show ?thesis
    by (cases "c (m_id m)") (auto simp: isNewOrModified_def placeholder_def)
qed

lemma processModelImages_copies:
  "\<forall>j \<in> set js. j < length (data st) \<Longrightarrow>
   \<forall>x \<in> set (copies (processModelImages pub fs st js)).
      x \<in> set (copies st) \<or> (\<exists>j \<in> set js. fst x = m_id (data st ! j))"
  unfolding processModelImages_def
proof (induction js arbitrary: st)
  case Nil
  then show ?case by simp
next
  case (Cons j js)
  let ?st = "processModelImage pub fs st j"
  from Cons.prems have j: "j < length (data st)" by simp
  have ids: "map m_id (data ?st) = map m_id (data st)"
    by (rule processModelImage_ids[OF j])
  then have len: "length (data ?st) = length (data st)" by (metis length_map)
  have idk: "m_id (data ?st ! k) = m_id (data st ! k)" if "k < length (data st)" for k
    using ids that len by (metis nth_map)
  have step: "\<forall>x \<in> set (copies ?st). x \<in> set (copies st) \<or> fst x = m_id (data st ! j)"
    using j by (cases rule: processModelImage_cases[of j st pub fs]) auto
  from Cons.prems len have "\<forall>k \<in> set js. k < length (data ?st)" by simp
  from Cons.IH[OF this]
  have ih: "\<forall>x \<in> set (copies (foldl (processModelImage pub fs) ?st js)).
              x \<in> set (copies ?st) \<or> (\<exists>k \<in> set js. fst x = m_id (data ?st ! k))" .
  show ?case
  proof
    fix x assume "x \<in> set (copies (foldl (processModelImage pub fs) st (j # js)))"
    then have "x \<in> set (copies (foldl (processModelImage pub fs) ?st js))" by simp
    with ih have "x \<in> set (copies ?st) \<or> (\<exists>k \<in> set js. fst x = m_id (data ?st ! k))"
      by (rule bspec)
    then show "x \<in> set (copies st) \<or> (\<exists>k \<in> set (j # js). fst x = m_id (data st ! k))"
    proof
      assume "x \<in> set (copies ?st)"
      with step show ?thesis by auto
    next
      assume "\<exists>k \<in> set js. fst x = m_id (data ?st ! k)"
      then obtain k where k: "k \<in> set js" "fst x = m_id (data ?st ! k)" by blast
      with Cons.prems have "k < length (data st)" by simp
      from idk[OF this] k show ?thesis by auto
    qed
  qed
qed

lemma unchanged_untouched:
  assumes "distinct (map m_id (models d))"
    and "buildNextjsApp pub fs d savedCache clock finished = (d', bc', cps)"
    and "i < length (models d)"
    and "\<not> isNewOrModified
            (bc_models (case savedCache of Some c \<Rightarrow> c
                        | None \<Rightarrow> \<lparr>bc_models = Map.empty, bc_lastBuild = None\<rparr>))
            (models d ! i)"
  shows "models d' ! i = models d ! i"
    and "\<forall>c \<in> set cps. fst c \<noteq> m_id (models d ! i)"
proof -
  let ?old = "bc_models (case savedCache of Some c \<Rightarrow> c
                         | None \<Rightarrow> \<lparr>bc_models = Map.empty, bc_lastBuild = None\<rparr>)"
  obtain newModels unchangedModels c1 where
    cat: "categorizeModels clock (models d) ?old = (newModels, unchangedModels, c1)"
    and nw: "\<forall>j \<in> set newModels. j < length (models d) \<and> isNewOrModified ?old (models d ! j)"
    by (rule categorizeModels_distinct[OF assms(1), of clock ?old])
  let ?init = "\<lparr>data = models d, cache = c1, copies = []\<rparr>"
  let ?st = "processModelImages pub fs ?init newModels"
  from assms(2) have res: "d' = d\<lparr>models := data ?st\<rparr>" "cps = copies ?st"
    unfolding buildNextjsApp_eq[OF cat] by simp_all
  have "distinct (map m_id (data ?init))" "\<forall>j \<in> set newModels. j < length (data ?init)"
    using assms(1) nw by simp_all
  from processModelImages_distinct[OF this, of pub fs]
  have oic: "only_images_changed (models d) (set newModels) (data ?st)" by simp
  from nw assms(4) have ni: "i \<notin> set newModels" by blast
  with oic assms(3) show "models d' ! i = models d ! i"
    by (simp add: res only_images_changed_def)
  show "\<forall>c \<in> set cps. fst c \<noteq> m_id (models d ! i)"
  proof
    fix c assume "c \<in> set cps"
    with res have c: "c \<in> set (copies ?st)" by simp
    have "\<forall>j \<in> set newModels. j < length (data ?init)" using nw by simp
    from processModelImages_copies[OF this, of pub fs] c
    obtain j where j: "j \<in> set newModels" "fst c = m_id (models d ! j)" by auto
    with nw have jl: "j < length (models d)" by blast
    from j ni have "j \<noteq> i" by blast
    with assms(1,3) jl have "m_id (models d ! j) \<noteq> m_id (models d ! i)"
      by (metis distinct_conv_nth length_map nth_map)
    with j show "fst c \<noteq> m_id (models d ! i)" by simp
  qed
qed


lemma build_images_published:
  assumes "distinct (map m_id (models d))"
    and "buildNextjsApp pub fs d savedCache clock finished = (d', bc', cps)"
    and "m \<in> set (models d')" "truthy (m_image m)"
  shows "webShaped (m_image m)"
proof -
  let ?old = "bc_models (case savedCache of Some c \<Rightarrow> c
                         | None \<Rightarrow> \<lparr>bc_models = Map.empty, bc_lastBuild = None\<rparr>)"
  note B = buildNextjsApp_distinct[OF assms(1,2)]
  from assms(3) B(1) obtain i where i: "i < length (models d)" "m = models d' ! i"
    by (auto simp: in_set_conv_nth)
  from B(2) i(1) have "webShaped (m_image (models d' ! i))
      \<or> (models d' ! i = models d ! i \<and> \<not> isNewOrModified ?old (models d ! i))"
    by blast
  then show ?thesis
  proof
    assume "webShaped (m_image (models d' ! i))"
    with i show ?thesis by simp
  next
    assume same: "models d' ! i = models d ! i \<and> \<not> isNewOrModified ?old (models d ! i)"
    with i have "\<not> isNewOrModified ?old m" by simp
    with isNewOrModified_with_image[OF assms(4), of ?old]
    have "\<not> mustReprocess ?old m" by simp
    then show ?thesis by (simp add: mustReprocess_def)
  qed
qed


subsection \<open>A cached model without an image\<close>

lemma ex_noimage: "resolveImage ex_files_noimage ''/data/Collection1/Goblin'' (Some ''cover.png'') = None"
  by (simp add: resolveImage_def ex_files_noimage_def path_eval fs_eval image_eval str_eval)

lemma ex_goblin_entry_update:
  "ex_goblin_entry t v = (ex_goblin_entry [] None)\<lparr>m_dateAdded := t, m_image := v\<rparr>"
  by (simp add: ex_goblin_entry_def)

lemma ex_goblin_hash:
  "calculateModelHash (ex_goblin_entry t v) = ex_goblin_hash"
  unfolding ex_goblin_hash_def
  by (subst ex_goblin_entry_update) (simp only: calculateModelHash_ignores)

lemma ex_goblin_fields:
  "m_id (ex_goblin_entry t v) = stableId ''Goblin'' ''Collection1/Goblin/config.orynt3d''"
  "m_image (ex_goblin_entry t v) = v"
  by (simp_all add: ex_goblin_entry_def)

lemma categorize_single_new:
  "c (m_id m) = None \<Longrightarrow>
   categorizeModels clk [m] c
     = ([0], [], c(m_id m \<mapsto> \<lparr>c_hash = calculateModelHash m, c_lastProcessed = clk 0,
                              c_imagePath = None\<rparr>))"
  by (simp add: categorizeModels_def categorizeModel_def isNewOrModified_def)

lemma ex_bare_run1_eval:
  "models (fst ex_bare_run1) = [ex_goblin_entry ''2024-06-01T10:00:00.000Z'' (Some placeholder)]"
  "bc_models (fst (snd ex_bare_run1))
     = [stableId ''Goblin'' ''Collection1/Goblin/config.orynt3d''
          \<mapsto> \<lparr>c_hash = ex_goblin_hash,
               c_lastProcessed = ''2024-06-01T10:00:02.000Z'', c_imagePath = None\<rparr>]"
proof -
  have E: "models (mainExtractModelData ex_env (ex_tree\<lparr>files := ex_files_noimage\<rparr>) None
                     (clock1 ex_clock_A) (t1 ex_clock_A))
             = [ex_goblin_entry ''2024-06-01T10:00:00.000Z'' None]"
    by (simp add: ex_extract_any loadExistingDataFile_def preservedImage_def ex_noimage
          ex_clock_A_def)
  have u: "(ex_goblin_entry t None)\<lparr>m_image := Some placeholder\<rparr>
             = ex_goblin_entry t (Some placeholder)" for t
    by (simp add: ex_goblin_entry_def)
  show "models (fst ex_bare_run1) = [ex_goblin_entry ''2024-06-01T10:00:00.000Z'' (Some placeholder)]"
    unfolding ex_bare_run1_def pipeline_eq
    by (simp add: buildNextjsApp_def E categorize_single_new Let_def processModelImages_def
          processModelImage_def ex_goblin_fields setImage_def u)
  show "bc_models (fst (snd ex_bare_run1))
     = [stableId ''Goblin'' ''Collection1/Goblin/config.orynt3d''
          \<mapsto> \<lparr>c_hash = ex_goblin_hash,
               c_lastProcessed = ''2024-06-01T10:00:02.000Z'', c_imagePath = None\<rparr>]"
    unfolding ex_bare_run1_def pipeline_eq
    by (simp add: buildNextjsApp_def E categorize_single_new Let_def processModelImages_def
          processModelImage_def ex_goblin_fields setImage_def ex_goblin_hash)
       (simp add: ex_clock_A_def)
qed

lemma ex_bare_unchanged:
  "categorizeModels clk [ex_goblin_entry t None] (bc_models (fst (snd ex_bare_run1)))
     = ([], [0], bc_models (fst (snd ex_bare_run1)))"
  by (simp add: categorizeModels_def categorizeModel_def isNewOrModified_def ex_bare_run1_eval
        ex_goblin_fields ex_goblin_hash)

text \<open>
  Claim C6 on the input the second run gives to the categorizer, after a first run on a
  model without any image and the loss of the catalog file: the model has no image, so its
  image does not start with \<^verbatim>\<open>/images/\<close> or \<^verbatim>\<open>http\<close> and by the claim it is changed; the
  categorizer puts it among the unchanged models.
\<close>

theorem C6_cached_model_without_image:
  "m_image (ex_goblin_entry ''2024-06-02T10:00:00.000Z'' None) = None
   \<and> \<not> webShaped (m_image (ex_goblin_entry ''2024-06-02T10:00:00.000Z'' None))
   \<and> categorizeModels (clock2 ex_clock_B) [ex_goblin_entry ''2024-06-02T10:00:00.000Z'' None]
        (bc_models (fst (snd ex_bare_run1)))
      = ([], [0], bc_models (fst (snd ex_bare_run1)))"
  by (simp add: ex_bare_unchanged webShaped_def ex_goblin_fields)

text \<open>
  Claim C9 on the same runs: the first run gives the model the placeholder; the second run,
  made after the catalog file was removed and with the build cache of the first, leaves the
  model in the catalog without any image.
\<close>

theorem C9_entry_left_without_image:
  "map m_image (models (fst ex_bare_run1)) = [Some placeholder]
   \<and> map m_image (models (fst ex_bare_run2)) = [None]"
proof -
  have E: "mainExtractModelData ex_env (ex_tree\<lparr>files := ex_files_noimage\<rparr>) None
                     (clock1 ex_clock_B) (t1 ex_clock_B)
             = \<lparr>models = [ex_goblin_entry ''2024-06-02T10:00:00.000Z'' None],
                lastUpdated = t1 ex_clock_B, totalCount = 1\<rparr>"
    using ex_extract_any[of ex_files_noimage None "clock1 ex_clock_B" "t1 ex_clock_B"]
    by (simp add: mainExtractModelData_def Let_def loadExistingDataFile_def preservedImage_def
          ex_noimage ex_clock_B_def)
  have "models (fst ex_bare_run2) = [ex_goblin_entry ''2024-06-02T10:00:00.000Z'' None]"
    unfolding ex_bare_run2_def pipeline_eq E
    by (simp add: buildNextjsApp_def ex_bare_unchanged Let_def processModelImages_def)
  then show ?thesis
    by (simp add: ex_bare_run1_eval ex_goblin_fields)
qed


subsection \<open>Release documents at the root of the scan\<close>

text \<open>
  The walk from \<^verbatim>\<open>/\<close> and from \<^verbatim>\<open>.\<close> on the two example trees, the test of
  \<^verbatim>\<open>findApplicableReleaseConfigs\<close> on the paths the specification names, and the
  directories of the example's documents.
\<close>

lemma ex_root_walk:
  "findOrynt3dConfigFilesRecursively 3 ex_root_files ''/''
     = [''/config.orynt3d'', ''/Goblin/config.orynt3d'']"
  "findOrynt3dConfigFilesRecursively 3 ex_dot_files ''.''
     = [''config.orynt3d'', ''Goblin/config.orynt3d'']"
  by (simp_all add: numeral_3_eq_3 ex_root_files_def ex_dot_files_def fs_eval path_eval str_eval)

lemma applies_examples:
  "\<not> applies ''/foo'' ''/foo-bar''"
  "applies ''/A'' ''/A/B/model''"
  "\<not> applies ''/A'' ''/C/model''"
  "applies ''/A'' ''/A''"
  by (simp_all add: applies_def)

lemma ex_root_dirs:
  "dirname ''/config.orynt3d'' = ''/''" "dirname ''/Goblin/config.orynt3d'' = ''/Goblin''"
  "dirname ''/Goblin'' = ''/''"
  "dirname ''config.orynt3d'' = ''.''" "dirname ''Goblin/config.orynt3d'' = ''Goblin''"
  "dirname ''Goblin'' = ''.''"
  by (simp_all add: dirname_def)

text \<open>
  Claim C3. The specification: a release document is applicable to a model exactly when
  its directory is the model's directory or an ancestor of it. On a scan from the root
  directory \<^verbatim>\<open>/\<close> the release document \<^verbatim>\<open>/config.orynt3d\<close> is stored with the directory
  \<^verbatim>\<open>/\<close>, which is an ancestor of the model's directory \<^verbatim>\<open>/Goblin\<close>; the test
  \<^verbatim>\<open>modelDir.startsWith(releaseDir + path.sep)\<close> compares with \<^verbatim>\<open>//\<close> and fails, so no
  release document is applicable to the model. The same happens on a scan from the relative
  directory \<^verbatim>\<open>.\<close>, where the release document is stored with the directory \<^verbatim>\<open>.\<close> and the
  test compares \<^verbatim>\<open>Goblin\<close> with \<^verbatim>\<open>./\<close>.
\<close>

theorem C3_release_at_root_not_applied:
  "configFiles ex_root_tree = [''/config.orynt3d'', ''/Goblin/config.orynt3d'']
   \<and> analyzeConfigFiles (readConfig ex_root_tree) (configFiles ex_root_tree)
       = [(''/config.orynt3d'', ex_release_config, ''/'')]
   \<and> path_ancestor_or_equal ''/'' (dirname ''/Goblin/config.orynt3d'')
   \<and> findApplicableReleaseConfigs
         (analyzeConfigFiles (readConfig ex_root_tree) (configFiles ex_root_tree))
         ''/Goblin/config.orynt3d'' = []
   \<and> configFiles ex_dot_tree = [''config.orynt3d'', ''Goblin/config.orynt3d'']
   \<and> analyzeConfigFiles (readConfig ex_dot_tree) (configFiles ex_dot_tree)
       = [(''config.orynt3d'', ex_release_config, ''.'')]
   \<and> path_ancestor_or_equal ''.'' (dirname ''Goblin/config.orynt3d'')
   \<and> findApplicableReleaseConfigs
         (analyzeConfigFiles (readConfig ex_dot_tree) (configFiles ex_dot_tree))
         ''Goblin/config.orynt3d'' = []"
proof -
  have files: "configFiles ex_root_tree = [''/config.orynt3d'', ''/Goblin/config.orynt3d'']"
    "configFiles ex_dot_tree = [''config.orynt3d'', ''Goblin/config.orynt3d'']"
    by (simp_all add: ex_root_tree_def ex_dot_tree_def ex_root_walk)
  have an: "analyzeConfigFiles (readConfig ex_root_tree) (configFiles ex_root_tree)
       = [(''/config.orynt3d'', ex_release_config, ''/'')]"
    "analyzeConfigFiles (readConfig ex_dot_tree) (configFiles ex_dot_tree)
       = [(''config.orynt3d'', ex_release_config, ''.'')]"
    unfolding files
    by (simp_all add: analyzeConfigFiles_def ex_root_tree_def ex_dot_tree_def ex_classify
          ex_root_dirs)
  have anc: "path_ancestor_or_equal ''/'' (dirname ''/Goblin/config.orynt3d'')"
    "path_ancestor_or_equal ''.'' (dirname ''Goblin/config.orynt3d'')"
    by (simp_all add: path_ancestor_or_equal_def ex_root_dirs)
  have app: "findApplicableReleaseConfigs [(''/config.orynt3d'', ex_release_config, ''/'')]
         ''/Goblin/config.orynt3d'' = []"
    "findApplicableReleaseConfigs [(''config.orynt3d'', ex_release_config, ''.'')]
         ''Goblin/config.orynt3d'' = []"
    by (simp_all add: findApplicableReleaseConfigs_def ex_root_dirs applies_def)
  show ?thesis
    unfolding an unfolding files using anc app by simp
qed


end
